theory Spec2Isabelle
  imports Main "HOL-Library.Word"
begin

unbundle bit_operations_syntax

chapter \<open>The program\<close>

section \<open>Errors (pkg/types/errors.go)\<close>

text \<open>
  A Go \<open>error\<close> value is one of three things for this program: a
  \<open>*googleapi.Error\<close> (HTTP status code and message), a \<open>*types.AppError\<close>, or some
  other error (\<open>context.Canceled\<close>, an error made by \<open>fmt.Errorf\<close>, ...).  The nil
  error is \<open>None\<close> of \<open>goerror option\<close>.  The private field \<open>wrapped\<close> of an
  \<open>AppError\<close> is again an error, possibly nil.
\<close>

datatype goerror =
    GoogleapiError (apiCode: int) (apiMessage: string)
  | AppError (Code: string) (Message: string) (Details: string) (Recoverable: bool)
      (SuggestedAction: string) (wrapped: "goerror option")
  | OtherError string

definition ErrCodeAuthFailed :: string where "ErrCodeAuthFailed = ''AUTH_FAILED''"
definition ErrCodeInvalidInput :: string where "ErrCodeInvalidInput = ''INVALID_INPUT''"
definition ErrCodeInvalidTimeRange :: string where "ErrCodeInvalidTimeRange = ''INVALID_TIME_RANGE''"
definition ErrCodeNotFound :: string where "ErrCodeNotFound = ''NOT_FOUND''"
definition ErrCodeRateLimit :: string where "ErrCodeRateLimit = ''RATE_LIMIT''"
definition ErrCodeAPIError :: string where "ErrCodeAPIError = ''API_ERROR''"
definition ErrCodePermissionDenied :: string where "ErrCodePermissionDenied = ''PERMISSION_DENIED''"
definition ErrCodeNetworkError :: string where "ErrCodeNetworkError = ''NETWORK_ERROR''"

definition NewAppError :: "string \<Rightarrow> string \<Rightarrow> bool \<Rightarrow> goerror" where
  "NewAppError code message recoverable = AppError code message [] recoverable [] None"

fun WithDetails :: "goerror \<Rightarrow> string \<Rightarrow> goerror" where
  "WithDetails (AppError c m d r s w) details = AppError c m details r s w"
| "WithDetails e details = e"

fun WithSuggestedAction :: "goerror \<Rightarrow> string \<Rightarrow> goerror" where
  "WithSuggestedAction (AppError c m d r s w) action = AppError c m d r action w"
| "WithSuggestedAction e action = e"

fun WithWrappedError :: "goerror \<Rightarrow> goerror option \<Rightarrow> goerror" where
  "WithWrappedError (AppError c m d r s w) err = AppError c m d r s err"
| "WithWrappedError e err = e"

definition ErrAuthFailed :: "string \<Rightarrow> goerror" where
  "ErrAuthFailed message =
     WithSuggestedAction (NewAppError ErrCodeAuthFailed message True)
       ''Run 'gcal-cli auth login' to authenticate''"

definition ErrInvalidInput :: "string \<Rightarrow> string \<Rightarrow> goerror" where
  "ErrInvalidInput field reason =
     WithDetails (NewAppError ErrCodeInvalidInput (''Invalid value for '' @ field) True) reason"

definition ErrNotFound :: "string \<Rightarrow> string \<Rightarrow> goerror" where
  "ErrNotFound resource ident =
     WithDetails (NewAppError ErrCodeNotFound (resource @ '' not found'') False)
       (''ID: '' @ ident)"

definition ErrRateLimit :: goerror where
  "ErrRateLimit =
     WithSuggestedAction (NewAppError ErrCodeRateLimit ''API rate limit exceeded'' True)
       ''Wait a moment and try again''"

definition ErrNetworkError :: "string \<Rightarrow> goerror" where
  "ErrNetworkError message =
     WithSuggestedAction (NewAppError ErrCodeNetworkError message True)
       ''Check your internet connection and try again''"

text \<open>
  \<open>ErrAPIError\<close> is a package-level variable: a pointer to one \<open>AppError\<close> object, and
  the \<open>With...\<close> methods update the object they are called on and return the same
  pointer.  The definition gives the fields this object has when the package is
  initialised.  \<open>withRetry\<close>, \<open>handleAPIError\<close> and \<open>QueryFreeBusy\<close> below return it
  after they have set its details, the first two its wrapped error as well; what they
  return is given as a value: the fields the call has set, and the initial ones for the
  others.  (In a process where an earlier call has set the wrapped error, a call that
  sets the details only leaves it in place; and where \<open>handleAPIError\<close> is given the
  object itself, the object then wraps itself.  The value shows neither.)
\<close>

definition ErrAPIError :: goerror where
  "ErrAPIError = NewAppError ErrCodeAPIError ''API operation failed'' True"

text \<open>
  Where an error is kept after it was returned, as in the results of the batch
  operations, it is a reference: to the object of \<open>ErrAPIError\<close>, which several
  holders then share and any later \<open>With...\<close> call changes for all of them, or to an
  error of its own (the constructors \<open>ErrInvalidInput\<close>, \<open>ErrNotFound\<close>, ... allocate
  a new object at each call, and nothing updates it afterwards).  The program writes
  the shared object in two ways, \<open>WithDetails\<close> and \<open>WithWrappedError\<close>; the wrapped
  error may be the object itself.
\<close>

datatype error_ref = TheErrAPIError | OwnError goerror

datatype shared_write = SetDetails string | SetWrapped "error_ref option"

record shared_AppError =
  sharedDetails :: string
  sharedWrapped :: "error_ref option"

definition initial_ErrAPIError :: shared_AppError where
  "initial_ErrAPIError = \<lparr>sharedDetails = [], sharedWrapped = None\<rparr>"

fun apply_write :: "shared_AppError \<Rightarrow> shared_write \<Rightarrow> shared_AppError" where
  "apply_write obj (SetDetails details) = obj\<lparr>sharedDetails := details\<rparr>"
| "apply_write obj (SetWrapped err) = obj\<lparr>sharedWrapped := err\<rparr>"

definition apply_writes :: "shared_AppError \<Rightarrow> shared_write list \<Rightarrow> shared_AppError" where
  "apply_writes obj ws = foldl apply_write obj ws"

text \<open>
  A call as the batch operations see it: what it returns, and what it writes to the
  shared object before it returns, in order.
\<close>

record 'a call =
  returned :: 'a
  written :: "shared_write list"

text \<open>
  The fields \<open>Code\<close> and \<open>Details\<close> that a reader finds behind a reference to an
  \<open>*AppError\<close> when the shared object is \<open>obj\<close>, and the error it wraps.
\<close>

fun Code_of :: "error_ref \<Rightarrow> string" where
  "Code_of TheErrAPIError = ErrCodeAPIError"
| "Code_of (OwnError (AppError c m d r s w)) = c"
| "Code_of (OwnError e) = []"

fun Details_of :: "shared_AppError \<Rightarrow> error_ref \<Rightarrow> string" where
  "Details_of obj TheErrAPIError = sharedDetails obj"
| "Details_of obj (OwnError (AppError c m d r s w)) = d"
| "Details_of obj (OwnError e) = []"

fun Unwrap_of :: "shared_AppError \<Rightarrow> error_ref \<Rightarrow> error_ref option" where
  "Unwrap_of obj TheErrAPIError = sharedWrapped obj"
| "Unwrap_of obj (OwnError (AppError c m d r s w)) = map_option OwnError w"
| "Unwrap_of obj (OwnError e) = None"

section \<open>Decimal formatting (\<open>%d\<close> of \<open>fmt.Sprintf\<close>)\<close>

definition digit_char :: "nat \<Rightarrow> char" where
  "digit_char n = ''0123456789'' ! n"

function nat_digits :: "nat \<Rightarrow> string" where
  "nat_digits n = (if n < 10 then [digit_char n] else nat_digits (n div 10) @ [digit_char (n mod 10)])"
  by pat_completeness auto
termination
  by (relation "measure id") auto

declare nat_digits.simps [simp del]

definition itoa :: "int \<Rightarrow> string" where
  "itoa i = (if i < 0 then CHR ''-'' # nat_digits (nat (- i)) else nat_digits (nat i))"

section \<open>The Go \<open>time\<close> package, as far as the program uses it\<close>

text \<open>
  A \<open>time.Time\<close> is an instant and a location.  The instant is kept as the number of
  nanoseconds since the Unix epoch, an unbounded integer (the library has 64 bits of
  seconds, out of reach of any calendar date); a \<open>time.Duration\<close> added to it is an
  integer number of nanoseconds.  A location is its list of zone transitions: the
  offset east of UTC, in seconds, in force from each transition time (Unix seconds) on,
  and the offset before the first.  The values obtained from \<open>time.Now().In(tz)\<close>,
  \<open>time.Date\<close> and \<open>time.Parse\<close> carry no monotonic clock reading.
\<close>

record location =
  locName :: string
  initialOffset :: int
  transitions :: "(int \<times> int) list"

definition UTC :: location where
  "UTC = \<lparr>locName = ''UTC'', initialOffset = 0, transitions = []\<rparr>"

definition FixedZone :: "string \<Rightarrow> int \<Rightarrow> location" where
  "FixedZone name offset = \<lparr>locName = name, initialOffset = offset, transitions = []\<rparr>"

definition alpha :: int where "alpha = - (2 ^ 63)"
definition omega :: int where "omega = 2 ^ 63 - 1"

text \<open>\<open>lookup l sec\<close> is the offset in force at \<open>sec\<close> and the bounds of its zone.\<close>

fun lookup_from :: "int \<Rightarrow> int \<Rightarrow> (int \<times> int) list \<Rightarrow> int \<Rightarrow> int \<times> int \<times> int" where
  "lookup_from off start [] sec = (off, start, omega)"
| "lookup_from off start ((w, off') # ts) sec =
     (if sec < w then (off, start, w) else lookup_from off' w ts sec)"

definition lookup :: "location \<Rightarrow> int \<Rightarrow> int \<times> int \<times> int" where
  "lookup l sec = lookup_from (initialOffset l) alpha (transitions l) sec"

record go_time =
  unixNano :: int
  loc :: location

definition Nanosecond :: int where "Nanosecond = 1"
definition Second :: int where "Second = 1000000000"
definition Minute :: int where "Minute = 60 * Second"
definition Hour :: int where "Hour = 60 * Minute"

definition time_Add :: "go_time \<Rightarrow> int \<Rightarrow> go_time" where
  "time_Add t d = t\<lparr>unixNano := unixNano t + d\<rparr>"

definition time_Before :: "go_time \<Rightarrow> go_time \<Rightarrow> bool" where
  "time_Before t u = (unixNano t < unixNano u)"

definition time_After :: "go_time \<Rightarrow> go_time \<Rightarrow> bool" where
  "time_After t u = (unixNano t > unixNano u)"

definition time_Equal :: "go_time \<Rightarrow> go_time \<Rightarrow> bool" where
  "time_Equal t u = (unixNano t = unixNano u)"

text \<open>Days since 1970-01-01 of a civil date, and back (proleptic Gregorian calendar).\<close>

definition days_from_civil :: "int \<Rightarrow> int \<Rightarrow> int \<Rightarrow> int" where
  "days_from_civil y m d =
     (let y' = (if m \<le> 2 then y - 1 else y);
          era = y' div 400;
          yoe = y' - era * 400;
          doy = (153 * (if m > 2 then m - 3 else m + 9) + 2) div 5 + d - 1;
          doe = yoe * 365 + yoe div 4 - yoe div 100 + doy
      in era * 146097 + doe - 719468)"

definition civil_from_days :: "int \<Rightarrow> int \<times> int \<times> int" where
  "civil_from_days z0 =
     (let z = z0 + 719468;
          era = z div 146097;
          doe = z - era * 146097;
          yoe = (doe - doe div 1460 + doe div 36524 - doe div 146096) div 365;
          doy = doe - (365 * yoe + yoe div 4 - yoe div 100);
          mp = (5 * doy + 2) div 153;
          d = doy - (153 * mp + 2) div 5 + 1;
          m = (if mp < 10 then mp + 3 else mp - 9);
          y = yoe + era * 400
      in (if m \<le> 2 then y + 1 else y, m, d))"

definition isLeap :: "int \<Rightarrow> bool" where
  "isLeap year = (year mod 4 = 0 \<and> (year mod 100 \<noteq> 0 \<or> year mod 400 = 0))"

definition daysIn :: "int \<Rightarrow> int \<Rightarrow> int" where
  "daysIn m year =
     (if m = 2 then (if isLeap year then 29 else 28)
      else if m = 4 \<or> m = 6 \<or> m = 9 \<or> m = 11 then 30 else 31)"

text \<open>
  \<open>time.Date\<close>: months outside 1..12 carry into the year; days, hours, minutes,
  seconds and nanoseconds outside their ranges carry into the instant.  The civil time
  is first read as if in UTC, then shifted by the offset the location has there (or,
  when the shifted time falls outside that zone, by the offset in force at the shifted
  time).
\<close>

definition time_Date ::
  "int \<Rightarrow> int \<Rightarrow> int \<Rightarrow> int \<Rightarrow> int \<Rightarrow> int \<Rightarrow> int \<Rightarrow> location \<Rightarrow> go_time" where
  "time_Date year month day hour minute sec nsec l =
     (let m = month - 1;
          year' = year + m div 12;
          month' = m mod 12 + 1;
          unix0 = (days_from_civil year' month' 1 + (day - 1)) * 86400
                    + hour * 3600 + minute * 60 + sec + nsec div 1000000000;
          nsec' = nsec mod 1000000000;
          unix = (case lookup l unix0 of (offset, start, end) \<Rightarrow>
                    if offset \<noteq> 0 then
                      (let utc = unix0 - offset;
                           offset' = (if utc < start \<or> utc \<ge> end
                                      then fst (lookup l utc) else offset)
                       in unix0 - offset')
                    else unix0)
      in \<lparr>unixNano = unix * 1000000000 + nsec', loc = l\<rparr>)"

definition unixSec :: "go_time \<Rightarrow> int" where
  "unixSec t = unixNano t div 1000000000"

definition zoneOffset :: "go_time \<Rightarrow> int" where
  "zoneOffset t = fst (lookup (loc t) (unixSec t))"

text \<open>The seconds since the epoch of the wall clock that \<open>t\<close> shows in its location.\<close>

definition localSec :: "go_time \<Rightarrow> int" where
  "localSec t = unixSec t + zoneOffset t"

definition time_Year :: "go_time \<Rightarrow> int" where
  "time_Year t = fst (civil_from_days (localSec t div 86400))"

definition time_Month :: "go_time \<Rightarrow> int" where
  "time_Month t = fst (snd (civil_from_days (localSec t div 86400)))"

definition time_Day :: "go_time \<Rightarrow> int" where
  "time_Day t = snd (snd (civil_from_days (localSec t div 86400)))"

definition time_Hour :: "go_time \<Rightarrow> int" where
  "time_Hour t = (localSec t mod 86400) div 3600"

definition time_Minute :: "go_time \<Rightarrow> int" where
  "time_Minute t = (localSec t mod 3600) div 60"

definition time_Second :: "go_time \<Rightarrow> int" where
  "time_Second t = localSec t mod 60"

definition time_Nanosecond :: "go_time \<Rightarrow> int" where
  "time_Nanosecond t = unixNano t mod 1000000000"

text \<open>Sunday is 0; 1970-01-01 was a Thursday.\<close>

definition time_Weekday :: "go_time \<Rightarrow> int" where
  "time_Weekday t = (localSec t div 86400 + 4) mod 7"

definition time_AddDate :: "go_time \<Rightarrow> int \<Rightarrow> int \<Rightarrow> int \<Rightarrow> go_time" where
  "time_AddDate t years months days =
     time_Date (time_Year t + years) (time_Month t + months) (time_Day t + days)
       (time_Hour t) (time_Minute t) (time_Second t) (time_Nanosecond t) (loc t)"

text \<open>The zero \<open>time.Time{}\<close>: January 1 of year 1, 00:00 UTC.\<close>

definition zero_time :: go_time where
  "zero_time = \<lparr>unixNano = - 62135596800 * 1000000000, loc = UTC\<rparr>"

text \<open>\<open>appendInt\<close>: decimal, padded with zeros to the width, a minus sign first.\<close>

definition pad_int :: "int \<Rightarrow> nat \<Rightarrow> string" where
  "pad_int x width =
     (let ds = nat_digits (nat \<bar>x\<bar>);
          padded = replicate (width - length ds) CHR ''0'' @ ds
      in if x < 0 then CHR ''-'' # padded else padded)"

text \<open>The quotient \<open>a / b\<close> of Go, which rounds towards zero.\<close>

definition quo :: "int \<Rightarrow> int \<Rightarrow> int" where
  "quo a b = (if (a < 0) = (b < 0) then \<bar>a\<bar> div \<bar>b\<bar> else - (\<bar>a\<bar> div \<bar>b\<bar>))"

text \<open>\<open>t.Format(time.RFC3339)\<close>, the layout \<open>2006-01-02T15:04:05Z07:00\<close>.\<close>

definition format_zone :: "int \<Rightarrow> string" where
  "format_zone offset =
     (if offset = 0 then ''Z''
      else (let zone = quo offset 60;
                sign = (if zone < 0 then CHR ''-'' else CHR ''+'');
                z = \<bar>zone\<bar>
            in sign # pad_int (z div 60) 2 @ '':'' @ pad_int (z mod 60) 2))"

definition Format_RFC3339 :: "go_time \<Rightarrow> string" where
  "Format_RFC3339 t =
     pad_int (time_Year t) 4 @ ''-'' @ pad_int (time_Month t) 2 @ ''-'' @ pad_int (time_Day t) 2
       @ ''T'' @ pad_int (time_Hour t) 2 @ '':'' @ pad_int (time_Minute t) 2 @ '':''
       @ pad_int (time_Second t) 2 @ format_zone (zoneOffset t)"

text \<open>
  \<open>time.Parse(time.RFC3339, s)\<close>, by the library's parser for this layout: four
  digits of year, two of month, day, hour, minute and second, with the separators
  \<open>-\<close>, \<open>T\<close> and \<open>:\<close>, an optional fraction of a second, then \<open>Z\<close> or an offset
  \<open>+hh:mm\<close> or \<open>-hh:mm\<close>.  (The library then retries with its general layout
  parser, which accepts a few more spellings, such as an hour of one digit; here
  they count as errors.)  The parsed time is given the fixed zone of its offset.
\<close>

definition isDigit :: "char \<Rightarrow> bool" where
  "isDigit c = ((48::nat) \<le> of_char c \<and> of_char c \<le> (57::nat))"

definition digit_val :: "char \<Rightarrow> int" where
  "digit_val c = int (of_char c :: nat) - 48"

text \<open>\<open>parseUint\<close>: all characters are digits and the value lies in the range.\<close>

definition parseUint :: "string \<Rightarrow> int \<Rightarrow> int \<Rightarrow> int option" where
  "parseUint s lo hi =
     (if list_all isDigit s then
        (let x = foldl (\<lambda>acc c. acc * 10 + digit_val c) 0 s
         in if x < lo \<or> hi < x then None else Some x)
      else None)"

text \<open>Nine digits of fraction, shorter ones padded, longer ones cut.\<close>

definition parseNanoseconds :: "string \<Rightarrow> int" where
  "parseNanoseconds ds =
     foldl (\<lambda>acc c. acc * 10 + digit_val c) 0 (take 9 (ds @ replicate 9 CHR ''0''))"

definition slice :: "string \<Rightarrow> nat \<Rightarrow> nat \<Rightarrow> string" where
  "slice s i j = take (j - i) (drop i s)"

definition parse_zone :: "string \<Rightarrow> int option" where
  "parse_zone s =
     (if s = ''Z'' then Some 0
      else if length s \<noteq> 6 then None
      else (case (parseUint (slice s 1 3) 0 23, parseUint (slice s 4 6) 0 59) of
              (Some hr, Some mm) \<Rightarrow>
                if (s ! 0 = CHR ''-'' \<or> s ! 0 = CHR ''+'') \<and> s ! 3 = CHR '':'' then
                  (let z = (hr * 60 + mm) * 60 in Some (if s ! 0 = CHR ''-'' then - z else z))
                else None
            | _ \<Rightarrow> None))"

definition Parse_RFC3339 :: "string \<Rightarrow> go_time option" where
  "Parse_RFC3339 s =
     (if length s < 19 then None
      else (case (parseUint (slice s 0 4) 0 9999, parseUint (slice s 5 7) 1 12) of
              (Some year, Some month) \<Rightarrow>
                (case (parseUint (slice s 8 10) 1 (daysIn month year),
                       parseUint (slice s 11 13) 0 23, parseUint (slice s 14 16) 0 59,
                       parseUint (slice s 17 19) 0 59) of
                   (Some day, Some hour, Some minute, Some sec) \<Rightarrow>
                     if s ! 4 = CHR ''-'' \<and> s ! 7 = CHR ''-'' \<and> s ! 10 = CHR ''T''
                        \<and> s ! 13 = CHR '':'' \<and> s ! 16 = CHR '':'' then
                       (let r = drop 19 s;
                            frac = (if length r \<ge> 2 \<and> r ! 0 = CHR ''.'' \<and> isDigit (r ! 1)
                                    then takeWhile isDigit (drop 1 r) else []);
                            nsec = (if frac = [] then 0 else parseNanoseconds frac);
                            r' = (if frac = [] then r else drop (1 + length frac) r)
                        in (case parse_zone r' of
                              None \<Rightarrow> None
                            | Some z \<Rightarrow>
                                Some ((time_Add (time_Date year month day hour minute sec nsec UTC)
                                         (- z * 1000000000))
                                      \<lparr>loc := (if z = 0 \<and> r' = ''Z'' then UTC else FixedZone [] z)\<rparr>)))
                     else None
                 | _ \<Rightarrow> None)
            | _ \<Rightarrow> None))"

text \<open>\<open>t, _ := time.Parse(time.RFC3339, s)\<close>: on an error \<open>t\<close> is the zero time.\<close>

definition Parse_RFC3339_or_zero :: "string \<Rightarrow> go_time" where
  "Parse_RFC3339_or_zero s = (case Parse_RFC3339 s of Some t \<Rightarrow> t | None \<Rightarrow> zero_time)"

section \<open>The remote calendar service (google.golang.org/api/calendar/v3)\<close>

text \<open>
  The values the service exchanges with the program, with the fields the program
  reads or writes, and the service itself as the answers it gives: \<open>Freebusy_Query\<close>
  to a free/busy request, \<open>Events_List\<close> to a listing of one calendar between two
  times with a maximum number of results (\<open>None\<close> when the program sets none).
  An answer is an error or a value.  A Go map from calendar identifiers is a list of
  pairs with distinct keys, in the order in which the program happens to range over it.
\<close>

record gTimePeriod =
  gStart :: string
  gEnd :: string

record gError =
  Domain :: string
  Reason :: string

record gFreeBusyCalendar =
  gBusy :: "gTimePeriod list"
  gErrors :: "gError list"

record gFreeBusyRequest =
  gTimeMin :: string
  gTimeMax :: string
  gTimeZone :: string
  gItems :: "string list"

record gEventDateTime =
  gDateTime :: string
  gDate :: string
  gDateTimeZone :: string

record gEventAttendee =
  gEmail :: string
  gResponseStatus :: string

record gEvent =
  gId :: string
  gSummary :: string
  gDescription :: string
  gLocation :: string
  gStatus :: string
  gEventStart :: "gEventDateTime option"
  gEventEnd :: "gEventDateTime option"
  gAttendees :: "gEventAttendee list"
  gRecurrence :: "string list"

record service =
  Freebusy_Query :: "gFreeBusyRequest \<Rightarrow> goerror + (string \<times> gFreeBusyCalendar) list"
  Events_List :: "string \<Rightarrow> string \<Rightarrow> string \<Rightarrow> int option \<Rightarrow> goerror + gEvent list"

section \<open>The retry executor (pkg/calendar/client.go)\<close>

text \<open>
  \<open>MaxRetries\<close> is a Go \<open>int\<close> and \<open>RetryDelay\<close> a \<open>time.Duration\<close> (an \<open>int64\<close> of
  nanoseconds).  The loop counter is modelled as an unbounded integer, which is what the
  code computes for every \<open>MaxRetries\<close> below \<open>2^63 - 1\<close>; the delay is a 64-bit word,
  since the shift and the product do wrap for moderate attempt numbers.
\<close>

record client =
  Service :: "service option"
  CalendarID :: string
  MaxRetries :: int
  RetryDelay :: "64 word"

definition NewClient :: "service option \<Rightarrow> string \<Rightarrow> client" where
  "NewClient svc calendarID =
     \<lparr>Service = svc, CalendarID = calendarID, MaxRetries = 3, RetryDelay = 1000000000\<rparr>"

fun isRetryable :: "goerror \<Rightarrow> bool" where
  "isRetryable (GoogleapiError code msg) =
     (if code = 429 then True
      else if code = 500 \<or> code = 502 \<or> code = 503 \<or> code = 504 then True
      else False)"
| "isRetryable e = False"

text \<open>
  What \<open>withRetry\<close> does besides returning: it calls \<open>fn\<close> and it waits.  The
  record counts the calls and lists the backoff delays waited for in full.

  The wrapped function is a closure over the remote service, so two calls may differ:
  \<open>fn k\<close> is the outcome of the call made when \<open>k\<close> calls have been made before
  (\<open>None\<close> is the nil error).  \<open>cancelled k\<close> says that, in the \<open>select\<close> before
  attempt \<open>k\<close>, the branch \<open>ctx.Done()\<close> is the one taken.
\<close>

record retry_effects =
  calls :: nat
  waits :: "64 word list"

datatype loop_exit = Returned "goerror option" | LeftLoop "goerror option"

definition backoff_delay :: "client \<Rightarrow> int \<Rightarrow> 64 word" where
  \<comment> \<open>only called with \<open>attempt > 0\<close>, where \<open>uint(attempt-1)\<close> is \<open>attempt - 1\<close>\<close>
  "backoff_delay c attempt = RetryDelay c * push_bit (nat (attempt - 1)) 1"

function withRetry_loop ::
  "client \<Rightarrow> (int \<Rightarrow> bool) \<Rightarrow> (nat \<Rightarrow> goerror option) \<Rightarrow> int \<Rightarrow> goerror option \<Rightarrow>
   retry_effects \<Rightarrow> loop_exit \<times> retry_effects" where
  "withRetry_loop c cancelled fn attempt lastErr eff =
     (if attempt \<le> MaxRetries c then
        (if attempt > 0 \<and> cancelled attempt then
           (Returned (Some (ErrNetworkError ''operation cancelled'')), eff)
         else
           let eff1 = (if attempt > 0
                       then eff\<lparr>waits := waits eff @ [backoff_delay c attempt]\<rparr> else eff);
               err = fn (calls eff1);
               eff2 = eff1\<lparr>calls := Suc (calls eff1)\<rparr>
           in (case err of
                 None \<Rightarrow> (Returned None, eff2)
               | Some e \<Rightarrow>
                   if \<not> isRetryable e then (LeftLoop (Some e), eff2)
                   else withRetry_loop c cancelled fn (attempt + 1) (Some e) eff2))
      else (LeftLoop lastErr, eff))"
  by pat_completeness auto
termination
  by (relation "measure (\<lambda>(c, cancelled, fn, attempt, lastErr, eff). nat (MaxRetries c + 1 - attempt))")
     auto

declare withRetry_loop.simps [simp del]

definition withRetry ::
  "client \<Rightarrow> (int \<Rightarrow> bool) \<Rightarrow> string \<Rightarrow> (nat \<Rightarrow> goerror option) \<Rightarrow>
   goerror option \<times> retry_effects" where
  "withRetry c cancelled operation fn =
     (case withRetry_loop c cancelled fn 0 None \<lparr>calls = 0, waits = []\<rparr> of
        (Returned r, eff) \<Rightarrow> (r, eff)
      | (LeftLoop lastErr, eff) \<Rightarrow>
          (Some (WithWrappedError
                   (WithDetails ErrAPIError
                      (operation @ '' failed after '' @ itoa (MaxRetries c + 1) @ '' attempts''))
                   lastErr),
           eff))"

text \<open>
  \<open>handleAPIError\<close> is what every caller of \<open>withRetry\<close> applies to the error it
  gets back; it classifies a \<open>*googleapi.Error\<close> by its status code.
\<close>

fun handleAPIError :: "goerror option \<Rightarrow> string \<Rightarrow> goerror option" where
  "handleAPIError None operation = None"
| "handleAPIError (Some (GoogleapiError code msg)) operation =
     (let err = Some (GoogleapiError code msg) in
      if code = 400 then
        Some (WithWrappedError (ErrInvalidInput ''request'' msg) err)
      else if code = 401 then
        Some (WithSuggestedAction
                (WithWrappedError (ErrAuthFailed ''invalid or expired credentials'') err)
                ''Run 'gcal-cli auth login' to re-authenticate'')
      else if code = 403 then
        Some (WithSuggestedAction
                (WithWrappedError
                   (WithDetails
                      (NewAppError ErrCodePermissionDenied ''insufficient permissions'' True) msg)
                   err)
                ''Check calendar sharing settings'')
      else if code = 404 then
        Some (WithWrappedError (WithDetails (ErrNotFound ''event'' []) msg) err)
      else if code = 409 then
        Some (WithWrappedError
                (WithDetails
                   (NewAppError ErrCodeInvalidInput ''conflict with existing event'' True) msg)
                err)
      else if code = 429 then
        Some (WithWrappedError ErrRateLimit err)
      else if code = 500 \<or> code = 502 \<or> code = 503 \<or> code = 504 then
        Some (WithSuggestedAction
                (WithWrappedError
                   (WithDetails
                      (NewAppError ErrCodeAPIError ''Google Calendar service error'' True) msg)
                   err)
                ''Try again in a few moments'')
      else
        Some (WithWrappedError
                (WithDetails ErrAPIError (''API error '' @ itoa code @ '': '' @ msg)) err))"
| "handleAPIError (Some e) operation =
     Some (WithWrappedError (WithDetails ErrAPIError (operation @ '' failed'')) (Some e))"

section \<open>Free/busy queries (pkg/calendar/freebusy.go)\<close>

record FreeBusyPeriod =
  Start :: string
  End :: string

record FreeBusyInfo =
  infoCalendarID :: string
  Busy :: "FreeBusyPeriod list"
  Errors :: "string list"

record FreeBusyQueryRequest =
  TimeMin :: string
  TimeMax :: string
  CalendarIDs :: "string list"
  TimeZone :: string

record FreeBusyQueryResponse =
  Calendars :: "(string \<times> FreeBusyInfo) list"
  respTimeMin :: string
  respTimeMax :: string

text \<open>
  The text of an error, \<open>err.Error()\<close>, as \<open>%v\<close> prints it.  For an \<open>AppError\<close>
  it is the method of pkg/types/errors.go; for the errors of the libraries it is the
  library's text in its simplest form.
\<close>

fun Error_text :: "goerror \<Rightarrow> string" where
  "Error_text (AppError c m d r s w) =
     (if d \<noteq> [] then c @ '': '' @ m @ '' ('' @ d @ '')'' else c @ '': '' @ m)"
| "Error_text (GoogleapiError code msg) = ''googleapi: Error '' @ itoa code @ '': '' @ msg"
| "Error_text (OtherError msg) = msg"

definition ParseError_text :: "string \<Rightarrow> string" where
  "ParseError_text v =
     ''parsing time '' @ [CHR 0x22] @ v @ [CHR 0x22] @ '' as ''
       @ [CHR 0x22] @ ''2006-01-02T15:04:05Z07:00'' @ [CHR 0x22]"

definition convertCalendar :: "string \<times> gFreeBusyCalendar \<Rightarrow> string \<times> FreeBusyInfo" where
  "convertCalendar kv =
     (case kv of (calID, calInfo) \<Rightarrow>
        (calID,
         \<lparr>infoCalendarID = calID,
          Busy = map (\<lambda>period. \<lparr>Start = gStart period, End = gEnd period\<rparr>) (gBusy calInfo),
          Errors = map (\<lambda>errItem. Domain errItem @ '': '' @ Reason errItem) (gErrors calInfo)\<rparr>))"

definition QueryFreeBusy :: "client \<Rightarrow> FreeBusyQueryRequest \<Rightarrow> goerror + FreeBusyQueryResponse" where
  "QueryFreeBusy c request =
     (case Service c of
        None \<Rightarrow> Inl (ErrAuthFailed ''calendar service not initialized'')
      | Some svc \<Rightarrow>
          if TimeMin request = [] \<or> TimeMax request = [] then
            Inl (ErrInvalidInput ''timeMin and timeMax'' ''both required for free/busy query'')
          else if length (CalendarIDs request) = 0 then
            Inl (ErrInvalidInput ''calendarIds'' ''at least one calendar ID required'')
          else
            (case Parse_RFC3339 (TimeMin request) of
               None \<Rightarrow> Inl (ErrInvalidInput ''timeMin''
                              (''invalid RFC3339 format: '' @ ParseError_text (TimeMin request)))
             | Some timeMin \<Rightarrow>
                 (case Parse_RFC3339 (TimeMax request) of
                    None \<Rightarrow> Inl (ErrInvalidInput ''timeMax''
                                   (''invalid RFC3339 format: '' @ ParseError_text (TimeMax request)))
                  | Some timeMax \<Rightarrow>
                      if time_Before timeMax timeMin then
                        Inl (WithDetails
                               (NewAppError ErrCodeInvalidTimeRange
                                  ''end time must be after start time'' True)
                               (''start: '' @ TimeMin request @ '', end: '' @ TimeMax request))
                      else
                        (case Freebusy_Query svc
                                \<lparr>gTimeMin = TimeMin request, gTimeMax = TimeMax request,
                                 gTimeZone = TimeZone request, gItems = CalendarIDs request\<rparr> of
                           Inl err \<Rightarrow>
                             Inl (WithDetails ErrAPIError
                                    (''free/busy query failed: '' @ Error_text err))
                         | Inr fbResponse \<Rightarrow>
                             Inr \<lparr>Calendars = map convertCalendar fbResponse,
                                  respTimeMin = TimeMin request,
                                  respTimeMax = TimeMax request\<rparr>))))"

text \<open>
  \<open>response.Calendars[calendarID]\<close>: the program stores the calendars one by one, a
  later entry with the same key replacing an earlier one.
\<close>

definition calendar_lookup :: "(string \<times> FreeBusyInfo) list \<Rightarrow> string \<Rightarrow> FreeBusyInfo option" where
  "calendar_lookup cals calendarID = map_of (rev cals) calendarID"

definition single_calendar_request :: "string \<Rightarrow> go_time \<Rightarrow> go_time \<Rightarrow> FreeBusyQueryRequest" where
  "single_calendar_request calendarID start end =
     \<lparr>TimeMin = Format_RFC3339 start, TimeMax = Format_RFC3339 end,
      CalendarIDs = [calendarID], TimeZone = []\<rparr>"

definition IsBusy :: "client \<Rightarrow> string \<Rightarrow> go_time \<Rightarrow> go_time \<Rightarrow> goerror + bool" where
  "IsBusy c calendarID start end =
     (case QueryFreeBusy c (single_calendar_request calendarID start end) of
        Inl err \<Rightarrow> Inl err
      | Inr response \<Rightarrow>
          (case calendar_lookup (Calendars response) calendarID of
             None \<Rightarrow> Inl (ErrNotFound ''calendar'' calendarID)
           | Some calInfo \<Rightarrow> Inr (length (Busy calInfo) > 0)))"

text \<open>The busy periods as times; a period that does not parse becomes the zero time.\<close>

definition parse_period :: "FreeBusyPeriod \<Rightarrow> go_time \<times> go_time" where
  "parse_period period = (Parse_RFC3339_or_zero (Start period), Parse_RFC3339_or_zero (End period))"

text \<open>The inner loop over the busy periods, which stops at the first overlap.\<close>

fun slot_isFree :: "go_time \<Rightarrow> go_time \<Rightarrow> (go_time \<times> go_time) list \<Rightarrow> bool" where
  "slot_isFree current slotEnd [] = True"
| "slot_isFree current slotEnd (busy # rest) =
     (if time_Before current (snd busy) \<and> time_After slotEnd (fst busy) then False
      else slot_isFree current slotEnd rest)"

text \<open>
  The outer loop.  It need not end (a slot duration of zero never advances
  \<open>current\<close>), so its result is an option: \<open>None\<close> when the loop runs forever.
\<close>

partial_function (option) FindFreeSlots_loop ::
  "(go_time \<times> go_time) list \<Rightarrow> go_time \<Rightarrow> int \<Rightarrow> go_time \<Rightarrow> go_time list \<Rightarrow> go_time list option"
where
  "FindFreeSlots_loop busyPeriods end slotDuration current freeSlots =
     (if time_Before (time_Add current slotDuration) end
         \<or> time_Equal (time_Add current slotDuration) end then
        FindFreeSlots_loop busyPeriods end slotDuration (time_Add current slotDuration)
          (if slot_isFree current (time_Add current slotDuration) busyPeriods
           then freeSlots @ [current] else freeSlots)
      else Some freeSlots)"

definition FindFreeSlots ::
  "client \<Rightarrow> string \<Rightarrow> go_time \<Rightarrow> go_time \<Rightarrow> int \<Rightarrow> (goerror + go_time list) option" where
  "FindFreeSlots c calendarID start end slotDuration =
     (case QueryFreeBusy c (single_calendar_request calendarID start end) of
        Inl err \<Rightarrow> Some (Inl err)
      | Inr response \<Rightarrow>
          (case calendar_lookup (Calendars response) calendarID of
             None \<Rightarrow> Some (Inl (ErrNotFound ''calendar'' calendarID))
           | Some calInfo \<Rightarrow>
               map_option Inr
                 (FindFreeSlots_loop (map parse_period (Busy calInfo)) end slotDuration start [])))"

definition CheckConflicts ::
  "client \<Rightarrow> string \<Rightarrow> go_time \<Rightarrow> go_time \<Rightarrow> goerror + bool \<times> FreeBusyPeriod list" where
  "CheckConflicts c calendarID start end =
     (case QueryFreeBusy c (single_calendar_request calendarID start end) of
        Inl err \<Rightarrow> Inl err
      | Inr response \<Rightarrow>
          (case calendar_lookup (Calendars response) calendarID of
             None \<Rightarrow> Inl (ErrNotFound ''calendar'' calendarID)
           | Some calInfo \<Rightarrow>
               (let conflicts =
                      filter (\<lambda>period. time_Before start (snd (parse_period period))
                                        \<and> time_After end (fst (parse_period period)))
                        (Busy calInfo)
                in Inr (length conflicts > 0, conflicts))))"

section \<open>Common free time of several calendars (pkg/calendar/multi\_calendar.go)\<close>

partial_function (option) FindCommonFreeTime_loop ::
  "(go_time \<times> go_time) list \<Rightarrow> go_time \<Rightarrow> int \<Rightarrow> go_time \<Rightarrow> go_time list \<Rightarrow> go_time list option"
where
  "FindCommonFreeTime_loop allBusyPeriods end slotDuration current commonFreeSlots =
     (if time_Before (time_Add current slotDuration) end
         \<or> time_Equal (time_Add current slotDuration) end then
        FindCommonFreeTime_loop allBusyPeriods end slotDuration (time_Add current slotDuration)
          (if slot_isFree current (time_Add current slotDuration) allBusyPeriods
           then commonFreeSlots @ [current] else commonFreeSlots)
      else Some commonFreeSlots)"

definition FindCommonFreeTime ::
  "client \<Rightarrow> string list \<Rightarrow> go_time \<Rightarrow> go_time \<Rightarrow> int \<Rightarrow> (goerror + go_time list) option" where
  "FindCommonFreeTime c calendarIDs start end slotDuration =
     (if Service c = None then Some (Inl (ErrAuthFailed ''calendar service not initialized''))
      else if length calendarIDs = 0 then
        Some (Inl (ErrInvalidInput ''calendarIds'' ''at least one calendar ID required''))
      else
        (case QueryFreeBusy c
                \<lparr>TimeMin = Format_RFC3339 start, TimeMax = Format_RFC3339 end,
                 CalendarIDs = calendarIDs, TimeZone = []\<rparr> of
           Inl err \<Rightarrow> Some (Inl err)
         | Inr response \<Rightarrow>
             map_option Inr
               (FindCommonFreeTime_loop
                  (concat (map (\<lambda>kv. map parse_period (Busy (snd kv))) (Calendars response)))
                  end slotDuration start [])))"

section \<open>Events (pkg/types/event.go)\<close>

record EventTime =
  DateTime :: string
  Date :: string
  etTimeZone :: string

record Attendee =
  Email :: string
  ResponseStatus :: string
  Organizer :: bool
  DisplayName :: string

record Event =
  ID :: string
  Summary :: string
  Description :: string
  evStart :: EventTime
  evEnd :: EventTime
  Status :: string
  Attendees :: "Attendee list"
  Recurrence :: "string list"
  Location :: string
  HTMLLink :: string

section \<open>Goroutines behind a semaphore (pkg/calendar/batch.go)\<close>

text \<open>
  The three batch operations start one goroutine per item and wait for all of them.
  Each goroutine goes through the same steps: it sends on the semaphore channel
  (which blocks while the channel is full), performs its operation, stores the
  result under the mutex, receives from the semaphore channel (the deferred
  function registered last) and calls \<open>wg.Done()\<close> (the one registered first).
  A goroutine is at one of these steps or has ended.
\<close>

datatype pc = AtAcquire | AtCall | AtStore | AtRelease | AtDone | Ended

text \<open>
  The state of a batch: where each goroutine is, the call each has made (what it
  returned and wrote), how many values the semaphore channel holds, the counter of the
  wait group, the results stored so far, and the writes made to the shared error
  object so far, in the order in which they were made.
\<close>

record ('o, 'r) batch_state =
  pcs :: "pc list"
  outcomes :: "'o call option list"
  semaphore :: nat
  wg :: nat
  results :: 'r
  writes :: "shared_write list"

text \<open>
  One step of goroutine \<open>i\<close>, for a semaphore of capacity \<open>cap\<close>.  \<open>op i\<close> is the
  call of the operation of goroutine \<open>i\<close>, taken as one step (the program does not
  synchronise the writes that two such calls make to the shared error object; here
  those of one call are not interleaved with those of another), and \<open>store\<close> is the
  statement between \<open>mu.Lock()\<close> and \<open>mu.Unlock()\<close>: it returns the new results, and
  it may write to the shared error object too.  A goroutine that is blocked or has
  ended does not move.
\<close>

definition goroutine_step ::
  "nat \<Rightarrow> (nat \<Rightarrow> 'o call) \<Rightarrow> (nat \<Rightarrow> 'o call \<Rightarrow> 'r \<Rightarrow> 'r call) \<Rightarrow> ('o, 'r) batch_state \<Rightarrow>
   nat \<Rightarrow> ('o, 'r) batch_state" where
  "goroutine_step cap op store st i =
     (if i \<ge> length (pcs st) then st
      else (case pcs st ! i of
              AtAcquire \<Rightarrow>
                if semaphore st < cap
                then st\<lparr>pcs := (pcs st)[i := AtCall], semaphore := semaphore st + 1\<rparr>
                else st
            | AtCall \<Rightarrow>
                st\<lparr>pcs := (pcs st)[i := AtStore], outcomes := (outcomes st)[i := Some (op i)],
                   writes := writes st @ written (op i)\<rparr>
            | AtStore \<Rightarrow>
                (case outcomes st ! i of
                   None \<Rightarrow> st
                 | Some out \<Rightarrow>
                     st\<lparr>pcs := (pcs st)[i := AtRelease],
                        results := returned (store i out (results st)),
                        writes := writes st @ written (store i out (results st))\<rparr>)
            | AtRelease \<Rightarrow>
                st\<lparr>pcs := (pcs st)[i := AtDone], semaphore := semaphore st - 1\<rparr>
            | AtDone \<Rightarrow>
                st\<lparr>pcs := (pcs st)[i := Ended], wg := wg st - 1\<rparr>
            | Ended \<Rightarrow> st))"

text \<open>
  The state once the goroutines of \<open>n\<close> items have been started (each after a
  \<open>wg.Add(1)\<close>), and the state after the scheduler has given the goroutines their
  turns in the order of a schedule, a list of goroutine numbers.
\<close>

definition batch_start :: "nat \<Rightarrow> 'r \<Rightarrow> ('o, 'r) batch_state" where
  "batch_start n r =
     \<lparr>pcs = replicate n AtAcquire, outcomes = replicate n None, semaphore = 0, wg = n,
      results = r, writes = []\<rparr>"

definition batch_run ::
  "nat \<Rightarrow> (nat \<Rightarrow> 'o call) \<Rightarrow> (nat \<Rightarrow> 'o call \<Rightarrow> 'r \<Rightarrow> 'r call) \<Rightarrow> nat list \<Rightarrow>
   ('o, 'r) batch_state \<Rightarrow> ('o, 'r) batch_state" where
  "batch_run cap op store schedule st = foldl (goroutine_step cap op store) st schedule"

text \<open>
  What a batch operation comes to under a schedule: \<open>wg.Wait()\<close> has not returned
  when the schedule ends, or the operation panics on a nil result, or it returns its
  results and its error.
\<close>

datatype 'r batch_outcome =
    is_Waiting: Waiting
  | is_Panic: Panic
  | is_Return: Return (returned_value: 'r) (returned_error: "error_ref option")

record BatchResult =
  Success :: bool
  Index :: nat
  EventID :: string
  Event :: "Event option"
  Error :: "error_ref option"

record batch_options =
  ContinueOnError :: bool
  MaxConcurrent :: int

record 'p BatchCreateParams = batch_options +
  Events :: "'p list"

record 'p BatchUpdateParams = batch_options +
  Updates :: "(string \<times> 'p) list"

record BatchDeleteParams = batch_options +
  EventIDs :: "string list"

text \<open>
  \<open>appErr, ok := err.(*types.AppError)\<close>, and the replacement when it is not one: the
  shared \<open>ErrAPIError\<close>, after its details and its wrapped error have been set.
\<close>

fun asAppError :: "error_ref \<Rightarrow> string \<Rightarrow> error_ref call" where
  "asAppError TheErrAPIError details = \<lparr>returned = TheErrAPIError, written = []\<rparr>"
| "asAppError (OwnError (AppError c m d r s w)) details =
     \<lparr>returned = OwnError (AppError c m d r s w), written = []\<rparr>"
| "asAppError err details =
     \<lparr>returned = TheErrAPIError, written = [SetDetails details, SetWrapped (Some err)]\<rparr>"

text \<open>The capacity of the semaphore channel, after the default has been set.\<close>

definition semaphore_capacity :: "int \<Rightarrow> nat" where
  "semaphore_capacity maxConcurrent = nat (if maxConcurrent \<le> 0 then 5 else maxConcurrent)"

text \<open>
  The check after \<open>wg.Wait()\<close> over results held by pointer: the first result that
  failed makes the call fail; a nil pointer met before it is a panic.  The error of
  the failed call is the shared \<open>ErrAPIError\<close>, after its details have been set.
\<close>

fun first_failure :: "BatchResult option list \<Rightarrow> bool option" where
  "first_failure [] = Some False"
| "first_failure (None # rs) = None"
| "first_failure (Some r # rs) = (if \<not> Success r then Some True else first_failure rs)"

definition batch_return ::
  "bool \<Rightarrow> string \<Rightarrow> BatchResult option list \<Rightarrow> BatchResult option list batch_outcome call" where
  "batch_return continueOnError details rs =
     (if \<not> continueOnError then
        (case first_failure rs of
           None \<Rightarrow> \<lparr>returned = Panic, written = []\<rparr>
         | Some True \<Rightarrow>
             \<lparr>returned = Return rs (Some TheErrAPIError), written = [SetDetails details]\<rparr>
         | Some False \<Rightarrow> \<lparr>returned = Return rs None, written = []\<rparr>)
      else \<lparr>returned = Return rs None, written = []\<rparr>)"

text \<open>
  The end of a batch operation over the state the goroutines have reached: it waits
  as long as the counter of the wait group is not zero.  The writes are those made
  until then.
\<close>

definition batch_end ::
  "bool \<Rightarrow> string \<Rightarrow> ('o, BatchResult option list) batch_state \<Rightarrow>
   BatchResult option list batch_outcome call" where
  "batch_end continueOnError details st =
     (if wg st \<noteq> 0 then \<lparr>returned = Waiting, written = writes st\<rparr>
      else (let r = batch_return continueOnError details (results st)
            in \<lparr>returned = returned r, written = writes st @ written r\<rparr>))"

subsection \<open>BatchCreateEvents\<close>

text \<open>
  \<open>CreateEvent i ep\<close> is the call \<open>c.CreateEvent(ctx, ep)\<close> for the item at index
  \<open>i\<close>: it returns an error or the event created, and it may write to the shared
  error object (as it does when the remote call fails: \<open>withRetry\<close> and
  \<open>handleAPIError\<close> both return \<open>ErrAPIError\<close>).  It is a parameter, as the answer
  depends on the remote service at the time of the call.
\<close>

definition create_details :: "nat \<Rightarrow> string" where
  "create_details index = ''failed to create event at index '' @ itoa (int index)"

definition create_result :: "nat \<Rightarrow> (error_ref + Event) call \<Rightarrow> BatchResult" where
  "create_result index out =
     (case returned out of
        Inl err \<Rightarrow>
          \<lparr>Success = False, Index = index, EventID = [], Event = None,
           Error = Some (returned (asAppError err (create_details index)))\<rparr>
      | Inr event \<Rightarrow>
          \<lparr>Success = True, Index = index, EventID = ID event, Event = Some event,
           Error = None\<rparr>)"

definition create_store ::
  "nat \<Rightarrow> (error_ref + Event) call \<Rightarrow> BatchResult option list \<Rightarrow>
   BatchResult option list call" where
  "create_store index out rs =
     \<lparr>returned = rs[index := Some (create_result index out)],
      written = (case returned out of
                   Inl err \<Rightarrow> written (asAppError err (create_details index))
                 | Inr event \<Rightarrow> [])\<rparr>"

definition BatchCreateEvents_state ::
  "(nat \<Rightarrow> 'p \<Rightarrow> (error_ref + Event) call) \<Rightarrow> 'p BatchCreateParams \<Rightarrow> nat list \<Rightarrow>
   (error_ref + Event, BatchResult option list) batch_state" where
  "BatchCreateEvents_state CreateEvent params schedule =
     batch_run (semaphore_capacity (MaxConcurrent params))
       (\<lambda>i. CreateEvent i (Events params ! i)) create_store schedule
       (batch_start (length (Events params)) (replicate (length (Events params)) None))"

definition BatchCreateEvents_call ::
  "(nat \<Rightarrow> 'p \<Rightarrow> (error_ref + Event) call) \<Rightarrow> 'p BatchCreateParams \<Rightarrow> nat list \<Rightarrow>
   BatchResult option list batch_outcome call" where
  "BatchCreateEvents_call CreateEvent params schedule =
     (if length (Events params) = 0 then
        \<lparr>returned = Return [] (Some (OwnError (ErrInvalidInput ''events'' ''no events provided''))),
         written = []\<rparr>
      else
        batch_end (ContinueOnError params)
          ''batch create failed: one or more events failed to create''
          (BatchCreateEvents_state CreateEvent params schedule))"

definition BatchCreateEvents ::
  "(nat \<Rightarrow> 'p \<Rightarrow> (error_ref + Event) call) \<Rightarrow> 'p BatchCreateParams \<Rightarrow> nat list \<Rightarrow>
   BatchResult option list batch_outcome" where
  "BatchCreateEvents CreateEvent params schedule =
     returned (BatchCreateEvents_call CreateEvent params schedule)"

subsection \<open>BatchUpdateEvents\<close>

text \<open>
  The updates are a Go map; the list gives its entries in the order in which the
  \<open>range\<close> statement meets them, which numbers the goroutines.  The results are
  appended as the goroutines store them.
\<close>

definition update_details :: "string \<Rightarrow> string" where
  "update_details ident = ''failed to update event '' @ ident"

definition update_result :: "string list \<Rightarrow> nat \<Rightarrow> (error_ref + Event) call \<Rightarrow> BatchResult" where
  "update_result ids idx out =
     (case returned out of
        Inl err \<Rightarrow>
          \<lparr>Success = False, Index = idx, EventID = ids ! idx, Event = None,
           Error = Some (returned (asAppError err (update_details (ids ! idx))))\<rparr>
      | Inr event \<Rightarrow>
          \<lparr>Success = True, Index = idx, EventID = ids ! idx, Event = Some event,
           Error = None\<rparr>)"

definition update_store ::
  "string list \<Rightarrow> nat \<Rightarrow> (error_ref + Event) call \<Rightarrow> BatchResult option list \<Rightarrow>
   BatchResult option list call" where
  "update_store ids idx out rs =
     \<lparr>returned = rs @ [Some (update_result ids idx out)],
      written = (case returned out of
                   Inl err \<Rightarrow> written (asAppError err (update_details (ids ! idx)))
                 | Inr event \<Rightarrow> [])\<rparr>"

definition BatchUpdateEvents_state ::
  "(string \<Rightarrow> 'p \<Rightarrow> (error_ref + Event) call) \<Rightarrow> 'p BatchUpdateParams \<Rightarrow> nat list \<Rightarrow>
   (error_ref + Event, BatchResult option list) batch_state" where
  "BatchUpdateEvents_state UpdateEvent params schedule =
     batch_run (semaphore_capacity (MaxConcurrent params))
       (\<lambda>i. UpdateEvent (fst (Updates params ! i)) (snd (Updates params ! i)))
       (update_store (map fst (Updates params))) schedule
       (batch_start (length (Updates params)) [])"

definition BatchUpdateEvents_call ::
  "(string \<Rightarrow> 'p \<Rightarrow> (error_ref + Event) call) \<Rightarrow> 'p BatchUpdateParams \<Rightarrow> nat list \<Rightarrow>
   BatchResult option list batch_outcome call" where
  "BatchUpdateEvents_call UpdateEvent params schedule =
     (if length (Updates params) = 0 then
        \<lparr>returned = Return [] (Some (OwnError (ErrInvalidInput ''updates'' ''no updates provided''))),
         written = []\<rparr>
      else
        batch_end (ContinueOnError params)
          ''batch update failed: one or more events failed to update''
          (BatchUpdateEvents_state UpdateEvent params schedule))"

definition BatchUpdateEvents ::
  "(string \<Rightarrow> 'p \<Rightarrow> (error_ref + Event) call) \<Rightarrow> 'p BatchUpdateParams \<Rightarrow> nat list \<Rightarrow>
   BatchResult option list batch_outcome" where
  "BatchUpdateEvents UpdateEvent params schedule =
     returned (BatchUpdateEvents_call UpdateEvent params schedule)"

subsection \<open>BatchDeleteEvents\<close>

definition delete_details :: "string \<Rightarrow> string" where
  "delete_details ident = ''failed to delete event '' @ ident"

definition delete_result :: "string list \<Rightarrow> nat \<Rightarrow> error_ref option call \<Rightarrow> BatchResult" where
  "delete_result ids index out =
     (case returned out of
        Some err \<Rightarrow>
          \<lparr>Success = False, Index = index, EventID = ids ! index, Event = None,
           Error = Some (returned (asAppError err (delete_details (ids ! index))))\<rparr>
      | None \<Rightarrow>
          \<lparr>Success = True, Index = index, EventID = ids ! index, Event = None,
           Error = None\<rparr>)"

definition delete_store ::
  "string list \<Rightarrow> nat \<Rightarrow> error_ref option call \<Rightarrow> BatchResult option list \<Rightarrow>
   BatchResult option list call" where
  "delete_store ids index out rs =
     \<lparr>returned = rs[index := Some (delete_result ids index out)],
      written = (case returned out of
                   Some err \<Rightarrow> written (asAppError err (delete_details (ids ! index)))
                 | None \<Rightarrow> [])\<rparr>"

definition BatchDeleteEvents_state ::
  "(string \<Rightarrow> error_ref option call) \<Rightarrow> BatchDeleteParams \<Rightarrow> nat list \<Rightarrow>
   (error_ref option, BatchResult option list) batch_state" where
  "BatchDeleteEvents_state DeleteEvent params schedule =
     batch_run (semaphore_capacity (MaxConcurrent params))
       (\<lambda>i. DeleteEvent (EventIDs params ! i)) (delete_store (EventIDs params)) schedule
       (batch_start (length (EventIDs params)) (replicate (length (EventIDs params)) None))"

definition BatchDeleteEvents_call ::
  "(string \<Rightarrow> error_ref option call) \<Rightarrow> BatchDeleteParams \<Rightarrow> nat list \<Rightarrow>
   BatchResult option list batch_outcome call" where
  "BatchDeleteEvents_call DeleteEvent params schedule =
     (if length (EventIDs params) = 0 then
        \<lparr>returned = Return [] (Some (OwnError (ErrInvalidInput ''eventIds'' ''no event IDs provided''))),
         written = []\<rparr>
      else
        batch_end (ContinueOnError params)
          ''batch delete failed: one or more events failed to delete''
          (BatchDeleteEvents_state DeleteEvent params schedule))"

definition BatchDeleteEvents ::
  "(string \<Rightarrow> error_ref option call) \<Rightarrow> BatchDeleteParams \<Rightarrow> nat list \<Rightarrow>
   BatchResult option list batch_outcome" where
  "BatchDeleteEvents DeleteEvent params schedule =
     returned (BatchDeleteEvents_call DeleteEvent params schedule)"

text \<open>
  \<open>GetBatchSummary\<close>: the counts \<open>total\<close>, \<open>success\<close> and \<open>failed\<close> of the map it
  returns; \<open>None\<close> is the panic on a nil result.
\<close>

fun summary_loop :: "BatchResult option list \<Rightarrow> nat \<times> nat \<Rightarrow> (nat \<times> nat) option" where
  "summary_loop [] counts = Some counts"
| "summary_loop (None # rs) counts = None"
| "summary_loop (Some result # rs) (success, failed) =
     (if Success result then summary_loop rs (success + 1, failed)
      else summary_loop rs (success, failed + 1))"

definition GetBatchSummary :: "BatchResult option list \<Rightarrow> (nat \<times> nat \<times> nat) option" where
  "GetBatchSummary rs = map_option (\<lambda>counts. (length rs, counts)) (summary_loop rs (0, 0))"

section \<open>Listing several calendars (pkg/calendar/multi\_calendar.go)\<close>

record MultiCalendarEvent =
  mceCalendarID :: string
  mceEvent :: Event

record MultiCalendarListResult =
  mclEvents :: "MultiCalendarEvent list"
  TotalCount :: nat
  ByCalendar :: "string \<rightharpoonup> nat"

text \<open>\<open>convertEvent\<close> of pkg/calendar/events.go, on an event that is not nil.\<close>

definition convertEventTime :: "gEventDateTime option \<Rightarrow> EventTime" where
  "convertEventTime t =
     (case t of
        None \<Rightarrow> \<lparr>DateTime = [], Date = [], etTimeZone = []\<rparr>
      | Some dt \<Rightarrow> \<lparr>DateTime = gDateTime dt, Date = gDate dt, etTimeZone = gDateTimeZone dt\<rparr>)"

definition convertEvent :: "gEvent \<Rightarrow> Event" where
  "convertEvent event =
     \<lparr>ID = gId event, Summary = gSummary event, Description = gDescription event,
      evStart = convertEventTime (gEventStart event), evEnd = convertEventTime (gEventEnd event),
      Status = gStatus event,
      Attendees = map (\<lambda>att. \<lparr>Email = gEmail att, ResponseStatus = gResponseStatus att,
                               Organizer = False, DisplayName = []\<rparr>) (gAttendees event),
      Recurrence = gRecurrence event, Location = gLocation event, HTMLLink = []\<rparr>"

text \<open>The order \<open>>\<close> of Go on strings: byte by byte.\<close>

fun string_gt :: "string \<Rightarrow> string \<Rightarrow> bool" where
  "string_gt [] t = False"
| "string_gt (a # s) [] = True"
| "string_gt (a # s) (b # t) =
     (if (of_char a :: nat) > of_char b then True
      else if (of_char a :: nat) < of_char b then False
      else string_gt s t)"

definition start_key :: "MultiCalendarEvent \<Rightarrow> string" where
  "start_key e =
     (if Date (evStart (mceEvent e)) \<noteq> [] then Date (evStart (mceEvent e))
      else DateTime (evStart (mceEvent e)))"

text \<open>The two nested loops of \<open>sortMultiCalendarEvents\<close>, which swap in place.\<close>

definition sortMultiCalendarEvents :: "MultiCalendarEvent list \<Rightarrow> MultiCalendarEvent list" where
  "sortMultiCalendarEvents events =
     foldl (\<lambda>evs i.
              foldl (\<lambda>evs j. if string_gt (start_key (evs ! i)) (start_key (evs ! j))
                              then evs[i := evs ! j, j := evs ! i] else evs)
                evs [i + 1..<length events])
       events [0..<length events]"

text \<open>
  One goroutine per calendar: it lists the events, then either sends the error on
  the channel (which has room for all) or, under the mutex, appends the events and
  records their number; then it ends with \<open>wg.Done()\<close>.  The goroutines call the
  service directly and do not touch the shared error object; the call itself does,
  when it returns \<open>ErrAPIError\<close> with new details.
\<close>

datatype list_pc = ListAtCall | ListAtCollect | ListEnded

record list_state =
  lpcs :: "list_pc list"
  listed :: "(goerror + gEvent list) option list"
  errorsChan :: "goerror list"
  listResult :: MultiCalendarListResult
  lwg :: nat

text \<open>The call \<open>call.Context(ctx).Do()\<close> of the goroutine of calendar number \<open>i\<close>.\<close>

definition list_call ::
  "service \<Rightarrow> string list \<Rightarrow> go_time \<Rightarrow> go_time \<Rightarrow> int \<Rightarrow> nat \<Rightarrow> goerror + gEvent list" where
  "list_call svc calendarIDs timeMin timeMax maxResults i =
     Events_List svc (calendarIDs ! i) (Format_RFC3339 timeMin) (Format_RFC3339 timeMax)
       (if maxResults > 0 then Some maxResults else None)"

definition list_step ::
  "service \<Rightarrow> string list \<Rightarrow> go_time \<Rightarrow> go_time \<Rightarrow> int \<Rightarrow> list_state \<Rightarrow> nat \<Rightarrow> list_state" where
  "list_step svc calendarIDs timeMin timeMax maxResults st i =
     (if i \<ge> length (lpcs st) then st
      else (case lpcs st ! i of
              ListAtCall \<Rightarrow>
                st\<lparr>lpcs := (lpcs st)[i := ListAtCollect],
                   listed := (listed st)[i :=
                     Some (list_call svc calendarIDs timeMin timeMax maxResults i)]\<rparr>
            | ListAtCollect \<Rightarrow>
                (case listed st ! i of
                   None \<Rightarrow> st
                 | Some (Inl err) \<Rightarrow>
                     st\<lparr>lpcs := (lpcs st)[i := ListEnded], lwg := lwg st - 1,
                        errorsChan := errorsChan st
                          @ [OtherError (''calendar '' @ calendarIDs ! i @ '': '' @ Error_text err)]\<rparr>
                 | Some (Inr items) \<Rightarrow>
                     st\<lparr>lpcs := (lpcs st)[i := ListEnded], lwg := lwg st - 1,
                        listResult := (listResult st)
                          \<lparr>mclEvents := mclEvents (listResult st)
                             @ map (\<lambda>event. \<lparr>mceCalendarID = calendarIDs ! i,
                                              mceEvent = convertEvent event\<rparr>) items,
                           ByCalendar := (ByCalendar (listResult st))
                                           (calendarIDs ! i \<mapsto> length items)\<rparr>\<rparr>)
            | ListEnded \<Rightarrow> st))"

definition ListEventsMultiCalendar_state ::
  "service \<Rightarrow> string list \<Rightarrow> go_time \<Rightarrow> go_time \<Rightarrow> int \<Rightarrow> nat list \<Rightarrow> list_state" where
  "ListEventsMultiCalendar_state svc calendarIDs timeMin timeMax maxResults schedule =
     foldl (list_step svc calendarIDs timeMin timeMax maxResults)
       \<lparr>lpcs = replicate (length calendarIDs) ListAtCall,
        listed = replicate (length calendarIDs) None,
        errorsChan = [],
        listResult = \<lparr>mclEvents = [], TotalCount = 0, ByCalendar = Map.empty\<rparr>,
        lwg = length calendarIDs\<rparr>
       schedule"

definition ListEventsMultiCalendar_call ::
  "client \<Rightarrow> string list \<Rightarrow> go_time \<Rightarrow> go_time \<Rightarrow> int \<Rightarrow> nat list \<Rightarrow>
   MultiCalendarListResult option batch_outcome call" where
  "ListEventsMultiCalendar_call c calendarIDs timeMin timeMax maxResults schedule =
     (case Service c of
        None \<Rightarrow>
          \<lparr>returned = Return None
                         (Some (OwnError (ErrAuthFailed ''calendar service not initialized''))),
           written = []\<rparr>
      | Some svc \<Rightarrow>
          if length calendarIDs = 0 then
            \<lparr>returned = Return None
                           (Some (OwnError (ErrInvalidInput ''calendarIds''
                                              ''at least one calendar ID required''))),
             written = []\<rparr>
          else
            (let st = ListEventsMultiCalendar_state svc calendarIDs timeMin timeMax maxResults
                        schedule
             in if lwg st \<noteq> 0 then \<lparr>returned = Waiting, written = []\<rparr>
                else (case errorsChan st of
                        err # rest \<Rightarrow>
                          \<lparr>returned = Return None (Some TheErrAPIError),
                           written = [SetDetails
                                        (''multi-calendar query failed: '' @ Error_text err)]\<rparr>
                      | [] \<Rightarrow>
                          \<lparr>returned =
                             Return
                               (Some ((listResult st)
                                        \<lparr>mclEvents := sortMultiCalendarEvents
                                                        (mclEvents (listResult st)),
                                         TotalCount := length (mclEvents (listResult st))\<rparr>))
                               None,
                           written = []\<rparr>)))"

definition ListEventsMultiCalendar ::
  "client \<Rightarrow> string list \<Rightarrow> go_time \<Rightarrow> go_time \<Rightarrow> int \<Rightarrow> nat list \<Rightarrow>
   MultiCalendarListResult option batch_outcome" where
  "ListEventsMultiCalendar c calendarIDs timeMin timeMax maxResults schedule =
     returned (ListEventsMultiCalendar_call c calendarIDs timeMin timeMax maxResults schedule)"

section \<open>Natural-language dates (package \<open>calendar\<close>)\<close>

subsection \<open>Strings\<close>

text \<open>
  Strings are byte strings. \<open>strings.ToLower\<close> and \<open>strings.TrimSpace\<close> are given as
  they act on ASCII text (letters \<open>A\<close> to \<open>Z\<close>; tab, line feed, vertical tab, form feed,
  carriage return and space); bytes from 128 on are left alone.
\<close>

definition ToLower :: "string \<Rightarrow> string" where
  "ToLower s =
     map (\<lambda>c. let n = (of_char c :: nat) in if 65 \<le> n \<and> n \<le> 90 then char_of (n + 32) else c) s"

definition isSpace :: "char \<Rightarrow> bool" where
  "isSpace c = (c \<in> set [CHR 0x09, CHR 0x0A, CHR 0x0B, CHR 0x0C, CHR 0x0D, CHR '' ''])"

definition TrimSpace :: "string \<Rightarrow> string" where
  "TrimSpace s = rev (dropWhile isSpace (rev (dropWhile isSpace s)))"

definition HasPrefix :: "string \<Rightarrow> string \<Rightarrow> bool" where
  "HasPrefix s p = (take (length p) s = p)"

definition TrimPrefix :: "string \<Rightarrow> string \<Rightarrow> string" where
  "TrimPrefix s p = (if HasPrefix s p then drop (length p) s else s)"

subsection \<open>The two regular expressions\<close>

text \<open>
  \<open>FindStringSubmatch\<close> returns the leftmost match and, among the matches that start
  there, the one a backtracking search finds first; the functions below are that search
  for each of the two expressions, returning the two groups (\<open>None\<close> when the library
  returns \<open>nil\<close>). \<open>\s\<close> is one of tab, line feed, form feed, carriage return and
  space; \<open>.\<close> is any character but line feed; \<open>\d\<close> is a decimal digit.
\<close>

definition re_space :: "char \<Rightarrow> bool" where
  "re_space c = (c \<in> set [CHR 0x09, CHR 0x0A, CHR 0x0C, CHR 0x0D, CHR '' ''])"

definition re_dot :: "char \<Rightarrow> bool" where
  "re_dot c = (c \<noteq> CHR 0x0A)"

fun first_some :: "('a \<Rightarrow> 'b option) \<Rightarrow> 'a list \<Rightarrow> 'b option" where
  "first_some f [] = None"
| "first_some f (x # xs) = (case f x of Some y \<Rightarrow> Some y | None \<Rightarrow> first_some f xs)"

text \<open>\<open>\s+\<close> followed by \<open>k\<close>: the longest run of white space first, then shorter ones.\<close>

definition re_spaces_then :: "(string \<Rightarrow> 'a option) \<Rightarrow> string \<Rightarrow> 'a option" where
  "re_spaces_then k r =
     first_some (\<lambda>n. k (drop n r)) (rev [1..<Suc (length (takeWhile re_space r))])"

text \<open>\<open>(.+)\<close> at the end of the expression: as many characters as there are, at least one.\<close>

definition re_dot_plus :: "string \<Rightarrow> string option" where
  "re_dot_plus r = (let g = takeWhile re_dot r in if g = [] then None else Some g)"

text \<open>\<open>\s+at\s+(.+)\<close>, from the position where the first group ends.\<close>

definition re_at_tail :: "string \<Rightarrow> string option" where
  "re_at_tail r =
     re_spaces_then
       (\<lambda>r1. if take 2 r1 = ''at'' then re_spaces_then re_dot_plus (drop 2 r1) else None) r"

text \<open>\<open>(.*?)\<close>: the shortest first group for which the rest matches.\<close>

fun re_lazy_group :: "string \<Rightarrow> string \<Rightarrow> (string \<times> string) option" where
  "re_lazy_group g [] = map_option (Pair g) (re_at_tail [])"
| "re_lazy_group g (c # r) =
     (case re_at_tail (c # r) of
        Some t \<Rightarrow> Some (g, t)
      | None \<Rightarrow> if re_dot c then re_lazy_group (g @ [c]) r else None)"

text \<open>The expression \<open>(.*?)\s+at\s+(.+)\<close> is not anchored: the first start that matches.\<close>

fun atRegex_FindStringSubmatch :: "string \<Rightarrow> (string \<times> string) option" where
  "atRegex_FindStringSubmatch [] = re_lazy_group [] []"
| "atRegex_FindStringSubmatch (c # r) =
     (case re_lazy_group [] (c # r) of
        Some m \<Rightarrow> Some m
      | None \<Rightarrow> atRegex_FindStringSubmatch r)"

text \<open>
  \<open>^in\s+(\d+)\s+(minute|minutes|hour|hours|day|days|week|weeks|month|months)$\<close>. A
  digit is no white space and no unit starts with white space, so each \<open>\s+\<close> and
  the \<open>\d+\<close> can only take its whole run; the unit must reach the end of the text.
\<close>

definition offset_units :: "string list" where
  "offset_units = [''minute'', ''minutes'', ''hour'', ''hours'', ''day'', ''days'',
                   ''week'', ''weeks'', ''month'', ''months'']"

definition offsetRegex_FindStringSubmatch :: "string \<Rightarrow> (string \<times> string) option" where
  "offsetRegex_FindStringSubmatch input =
     (if take 2 input = ''in'' then
        (let r0 = drop 2 input;
             r1 = dropWhile re_space r0;
             ds = takeWhile isDigit r1;
             r2 = dropWhile isDigit r1;
             unit = dropWhile re_space r2
         in if takeWhile re_space r0 \<noteq> [] \<and> ds \<noteq> [] \<and> takeWhile re_space r2 \<noteq> []
               \<and> unit \<in> set offset_units
            then Some (ds, unit) else None)
      else None)"

subsection \<open>\<open>time.Parse\<close> with the four layouts of \<open>parseTimeOfDay\<close>\<close>

text \<open>
  The library cuts a layout into chunks, each a literal prefix and a standard element
  (\<open>nextStdChunk\<close>); a layout is given here as that list of chunks. The elements that
  occur: \<open>15\<close> (hour), \<open>3\<close> (hour of the twelve-hour clock), \<open>04\<close> (minute, two
  digits), \<open>05\<close> (second, two digits) and \<open>pm\<close>.
\<close>

datatype std_chunk = stdHour | stdHour12 | stdZeroMinute | stdZeroSecond | stdpm

type_synonym layout = "(string \<times> std_chunk) list"

definition layout_3pm :: layout where
  "layout_3pm = [([], stdHour12), ([], stdpm)]"

definition layout_3_04pm :: layout where
  "layout_3_04pm = [([], stdHour12), ('':'', stdZeroMinute), ([], stdpm)]"

definition layout_15_04 :: layout where
  "layout_15_04 = [([], stdHour), ('':'', stdZeroMinute)]"

definition layout_15_04_05 :: layout where
  "layout_15_04_05 = [([], stdHour), ('':'', stdZeroMinute), ('':'', stdZeroSecond)]"

definition cutspace :: "string \<Rightarrow> string" where
  "cutspace s = dropWhile (\<lambda>c. c = CHR '' '') s"

function skip :: "string \<Rightarrow> string \<Rightarrow> string option" where
  "skip value [] = Some value"
| "skip value (p # ps) =
     (if p = CHR '' '' then
        (if value \<noteq> [] \<and> hd value \<noteq> CHR '' '' then None
         else skip (cutspace value) (cutspace ps))
      else (case value of
              [] \<Rightarrow> None
            | v # vs \<Rightarrow> if v \<noteq> p then None else skip vs ps))"
  by pat_completeness auto
termination
  by (relation "measure (\<lambda>(value, prefix). length prefix)")
     (auto simp: cutspace_def less_Suc_eq_le length_dropWhile_le)

text \<open>\<open>getnum\<close>: one or two digits; two are required when \<open>fixed\<close>.\<close>

definition getnum :: "string \<Rightarrow> bool \<Rightarrow> (int \<times> string) option" where
  "getnum s fixed =
     (case s of
        [] \<Rightarrow> None
      | c # r \<Rightarrow>
          if \<not> isDigit c then None
          else (case r of
                  [] \<Rightarrow> if fixed then None else Some (digit_val c, r)
                | d # r' \<Rightarrow>
                    if isDigit d then Some (digit_val c * 10 + digit_val d, r')
                    else if fixed then None else Some (digit_val c, r)))"

record parse_state =
  p_hour :: int
  p_min :: int
  p_sec :: int
  p_nsec :: int
  amSet :: bool
  pmSet :: bool

definition commaOrPeriod :: "char \<Rightarrow> bool" where
  "commaOrPeriod c = (c = CHR ''.'' \<or> c = CHR '','')"

text \<open>
  One element of the layout read from the value. After the seconds a fraction written
  in the value is read although the layout has none (none of the four layouts has an
  element after the seconds).
\<close>

definition parse_std :: "std_chunk \<Rightarrow> string \<Rightarrow> parse_state \<Rightarrow> (string \<times> parse_state) option" where
  "parse_std std value st =
     (case std of
        stdHour \<Rightarrow>
          (case getnum value False of
             None \<Rightarrow> None
           | Some (h, v) \<Rightarrow> if h < 0 \<or> 24 \<le> h then None else Some (v, st\<lparr>p_hour := h\<rparr>))
      | stdHour12 \<Rightarrow>
          (case getnum value False of
             None \<Rightarrow> None
           | Some (h, v) \<Rightarrow> if h < 0 \<or> 12 < h then None else Some (v, st\<lparr>p_hour := h\<rparr>))
      | stdZeroMinute \<Rightarrow>
          (case getnum value True of
             None \<Rightarrow> None
           | Some (m, v) \<Rightarrow> if m < 0 \<or> 60 \<le> m then None else Some (v, st\<lparr>p_min := m\<rparr>))
      | stdZeroSecond \<Rightarrow>
          (case getnum value True of
             None \<Rightarrow> None
           | Some (s, v) \<Rightarrow>
               if s < 0 \<or> 60 \<le> s then None
               else if length v \<ge> 2 \<and> commaOrPeriod (v ! 0) \<and> isDigit (v ! 1) then
                 (let frac = takeWhile isDigit (drop 1 v)
                  in Some (drop (1 + length frac) v,
                           st\<lparr>p_sec := s, p_nsec := parseNanoseconds frac\<rparr>))
               else Some (v, st\<lparr>p_sec := s\<rparr>))
      | stdpm \<Rightarrow>
          (if length value < 2 then None
           else if take 2 value = ''pm'' then Some (drop 2 value, st\<lparr>pmSet := True\<rparr>)
           else if take 2 value = ''am'' then Some (drop 2 value, st\<lparr>amSet := True\<rparr>)
           else None))"

fun parse_chunks :: "layout \<Rightarrow> string \<Rightarrow> parse_state \<Rightarrow> parse_state option" where
  "parse_chunks [] value st = (if value = [] then Some st else None)"
| "parse_chunks ((prefix, std) # layout) value st =
     (case skip value prefix of
        None \<Rightarrow> None
      | Some v \<Rightarrow>
          (case parse_std std v st of
             None \<Rightarrow> None
           | Some (v', st') \<Rightarrow> parse_chunks layout v' st'))"

text \<open>
  No year, month, day or zone is in these layouts: the time parsed is on January 1 of
  the year 0, in UTC.
\<close>

definition time_Parse :: "layout \<Rightarrow> string \<Rightarrow> go_time option" where
  "time_Parse layout value =
     (case parse_chunks layout value
             \<lparr>p_hour = 0, p_min = 0, p_sec = 0, p_nsec = 0, amSet = False, pmSet = False\<rparr> of
        None \<Rightarrow> None
      | Some st \<Rightarrow>
          (let hour = (if pmSet st \<and> p_hour st < 12 then p_hour st + 12
                       else if amSet st \<and> p_hour st = 12 then 0
                       else p_hour st)
           in Some (time_Date 0 1 1 hour (p_min st) (p_sec st) (p_nsec st) UTC)))"

subsection \<open>The parser\<close>

definition parseTimeOfDay :: "string \<Rightarrow> location \<Rightarrow> goerror + go_time" where
  "parseTimeOfDay timeStr0 tz =
     (let timeStr = TrimSpace (ToLower timeStr0)
      in case first_some (\<lambda>format. time_Parse format timeStr)
                [layout_3pm, layout_3_04pm, layout_15_04, layout_15_04_05] of
           Some t \<Rightarrow> Inr t
         | None \<Rightarrow> Inl (OtherError (''unable to parse time: '' @ timeStr)))"

text \<open>The text before and after \<open>at\<close>, or the whole text and no time.\<close>

definition split_at :: "string \<Rightarrow> string \<times> string" where
  "split_at input =
     (case atRegex_FindStringSubmatch input of
        Some (dateStr, timeStr) \<Rightarrow> (dateStr, timeStr)
      | None \<Rightarrow> (input, []))"

text \<open>
  The last step of \<open>parseRelativeDate\<close> and \<open>parseDayOfWeek\<close>: the time of day, if one
  was given, is put on the target date.
\<close>

definition apply_time :: "go_time \<Rightarrow> string \<Rightarrow> location \<Rightarrow> goerror + string" where
  "apply_time targetDate timeStr tz =
     (if timeStr \<noteq> [] then
        (case parseTimeOfDay timeStr tz of
           Inl err \<Rightarrow> Inl err
         | Inr parsedTime \<Rightarrow>
             Inr (Format_RFC3339
                    (time_Date (time_Year targetDate) (time_Month targetDate) (time_Day targetDate)
                       (time_Hour parsedTime) (time_Minute parsedTime) 0 0 tz)))
      else Inr (Format_RFC3339 targetDate))"

definition parseRelativeDate :: "string \<Rightarrow> go_time \<Rightarrow> location \<Rightarrow> goerror + string" where
  "parseRelativeDate input now tz =
     (case split_at input of
        (dateStr, timeStr) \<Rightarrow>
          (let d = TrimSpace dateStr
           in if d = ''now'' then Inr (Format_RFC3339 now)
              else if d = ''today'' then
                apply_time (time_Date (time_Year now) (time_Month now) (time_Day now) 0 0 0 0 tz)
                  timeStr tz
              else if d = ''tomorrow'' then
                apply_time (time_Date (time_Year now) (time_Month now) (time_Day now + 1) 0 0 0 0 tz)
                  timeStr tz
              else if d = ''yesterday'' then
                apply_time (time_Date (time_Year now) (time_Month now) (time_Day now - 1) 0 0 0 0 tz)
                  timeStr tz
              else Inl (OtherError ''not a relative date'')))"

text \<open>
  \<open>fmt.Sscanf(s, "%d", &amount)\<close> on a string of digits: the number, or, when it does
  not fit 64 bits, an error that the program ignores, \<open>amount\<close> staying 0. The products
  \<open>time.Duration(amount) * time.Minute\<close> and \<open>amount * 7\<close> wrap around at 64 bits.
\<close>

definition Sscanf_d :: "string \<Rightarrow> int" where
  "Sscanf_d s =
     (let n = foldl (\<lambda>acc c. acc * 10 + digit_val c) 0 s
      in if n \<le> 2 ^ 63 - 1 then n else 0)"

definition mul64 :: "int \<Rightarrow> int \<Rightarrow> int" where
  "mul64 a b = sint (word_of_int a * word_of_int b :: 64 word)"

definition parseTimeOffset :: "string \<Rightarrow> go_time \<Rightarrow> goerror + string" where
  "parseTimeOffset input now =
     (case offsetRegex_FindStringSubmatch input of
        None \<Rightarrow> Inl (OtherError ''not a time offset'')
      | Some (digits, unit) \<Rightarrow>
          (let amount = Sscanf_d digits
           in if unit = ''minute'' \<or> unit = ''minutes'' then
                Inr (Format_RFC3339 (time_Add now (mul64 amount Minute)))
              else if unit = ''hour'' \<or> unit = ''hours'' then
                Inr (Format_RFC3339 (time_Add now (mul64 amount Hour)))
              else if unit = ''day'' \<or> unit = ''days'' then
                Inr (Format_RFC3339 (time_AddDate now 0 0 amount))
              else if unit = ''week'' \<or> unit = ''weeks'' then
                Inr (Format_RFC3339 (time_AddDate now 0 0 (mul64 amount 7)))
              else if unit = ''month'' \<or> unit = ''months'' then
                Inr (Format_RFC3339 (time_AddDate now 0 amount 0))
              else Inl (OtherError (''unknown time unit: '' @ unit))))"

definition dayMap :: "string \<Rightarrow> int option" where
  "dayMap = map_of
     [(''sunday'', 0), (''monday'', 1), (''tuesday'', 2), (''wednesday'', 3), (''thursday'', 4),
      (''friday'', 5), (''saturday'', 6), (''sun'', 0), (''mon'', 1), (''tue'', 2), (''wed'', 3),
      (''thu'', 4), (''fri'', 5), (''sat'', 6)]"

datatype modifier = Next | This | Last

definition parseDayOfWeek :: "string \<Rightarrow> go_time \<Rightarrow> location \<Rightarrow> goerror + string" where
  "parseDayOfWeek input now tz =
     (case split_at input of
        (dateStr, timeStr) \<Rightarrow>
          (let (modifier, dayStr) =
                 (if HasPrefix dateStr ''next '' then (Next, TrimPrefix dateStr ''next '')
                  else if HasPrefix dateStr ''this '' then (This, TrimPrefix dateStr ''this '')
                  else if HasPrefix dateStr ''last '' then (Last, TrimPrefix dateStr ''last '')
                  else (Next, dateStr))
           in case dayMap (ToLower dayStr) of
                None \<Rightarrow> Inl (OtherError ''not a day of week'')
              | Some targetWeekday \<Rightarrow>
                  (let currentWeekday = time_Weekday now;
                       targetDate =
                         (case modifier of
                            Next \<Rightarrow>
                              (let daysUntil = targetWeekday - currentWeekday
                               in time_AddDate now 0 0
                                    (if daysUntil \<le> 0 then daysUntil + 7 else daysUntil))
                          | This \<Rightarrow>
                              (let daysUntil = targetWeekday - currentWeekday
                               in time_AddDate now 0 0
                                    (if daysUntil < 0 then daysUntil + 7 else daysUntil))
                          | Last \<Rightarrow>
                              (let daysAgo = currentWeekday - targetWeekday
                               in time_AddDate now 0 0
                                    (- (if daysAgo \<le> 0 then daysAgo + 7 else daysAgo))))
                   in apply_time
                        (time_Date (time_Year targetDate) (time_Month targetDate)
                           (time_Day targetDate) 0 0 0 0 tz)
                        timeStr tz)))"

definition parseSpecificDateTime :: "string \<Rightarrow> go_time \<Rightarrow> location \<Rightarrow> goerror + string" where
  "parseSpecificDateTime input now tz =
     Inl (OtherError ''specific date/time parsing not implemented'')"

text \<open>
  What the process has around it: the reading of the system clock (nanoseconds since
  the Unix epoch) that \<open>time.Now()\<close> returns, and the location \<open>time.Local\<close>.
  \<open>ParseNaturalLanguageDate\<close> has the text and the time zone as parameters, the zone
  possibly \<open>nil\<close>; the current time is not a parameter.
\<close>

record ambient =
  clock :: int
  Local :: location

definition time_Now :: "ambient \<Rightarrow> go_time" where
  "time_Now w = \<lparr>unixNano = clock w, loc = Local w\<rparr>"

definition time_In :: "go_time \<Rightarrow> location \<Rightarrow> go_time" where
  "time_In t l = t\<lparr>loc := l\<rparr>"

definition ParseNaturalLanguageDate :: "ambient \<Rightarrow> string \<Rightarrow> location option \<Rightarrow> goerror + string" where
  "ParseNaturalLanguageDate w input0 timezone0 =
     (let timezone = (case timezone0 of None \<Rightarrow> Local w | Some l \<Rightarrow> l);
          input = ToLower (TrimSpace input0);
          now = time_In (time_Now w) timezone
      in case parseRelativeDate input now timezone of
           Inr parsed \<Rightarrow> Inr parsed
         | Inl _ \<Rightarrow>
             (case parseTimeOffset input now of
                Inr parsed \<Rightarrow> Inr parsed
              | Inl _ \<Rightarrow>
                  (case parseDayOfWeek input now timezone of
                     Inr parsed \<Rightarrow> Inr parsed
                   | Inl _ \<Rightarrow>
                       (case parseSpecificDateTime input now timezone of
                          Inr parsed \<Rightarrow> Inr parsed
                        | Inl _ \<Rightarrow>
                            Inl (OtherError
                                   (''unable to parse natural language date: '' @ input))))))"

section \<open>Notions used to state the properties\<close>

text \<open>
  The stride positions of a window: \<open>stride start d n\<close> lists \<open>start\<close>,
  \<open>start + d\<close>, ... (\<open>n\<close> of them), and \<open>slot_count start end d\<close> is the number
  of whole slots of duration \<open>d\<close> between \<open>start\<close> and \<open>end\<close>.
\<close>

definition stride :: "go_time \<Rightarrow> int \<Rightarrow> nat \<Rightarrow> go_time list" where
  "stride start d n = map (\<lambda>k. time_Add start (int k * d)) [0..<n]"

definition slot_count :: "go_time \<Rightarrow> go_time \<Rightarrow> int \<Rightarrow> nat" where
  "slot_count start end d = nat ((unixNano end - unixNano start) div d)"

text \<open>The overlap test of \<open>CheckConflicts\<close> between a window and a busy period.\<close>

definition overlaps_window :: "go_time \<Rightarrow> go_time \<Rightarrow> FreeBusyPeriod \<Rightarrow> bool" where
  "overlaps_window start end period =
     (time_Before start (snd (parse_period period)) \<and> time_After end (fst (parse_period period)))"

text \<open>
  For the batch operations: a goroutine holds a permit of the semaphore from its send
  to its receive, and its result is stored from the store on.  The invariant of a
  batch of \<open>n\<close> goroutines relates the counters to the positions of the goroutines,
  and the results to the set of goroutines that have stored theirs, through a
  relation \<open>I\<close> that depends on the operation.
\<close>

definition holding :: "pc \<Rightarrow> bool" where
  "holding p = (p = AtCall \<or> p = AtStore \<or> p = AtRelease)"

definition stored :: "pc \<Rightarrow> bool" where
  "stored p = (p = AtRelease \<or> p = AtDone \<or> p = Ended)"

definition batch_inv ::
  "nat \<Rightarrow> nat \<Rightarrow> (nat \<Rightarrow> 'o call) \<Rightarrow> (nat set \<Rightarrow> 'r \<Rightarrow> bool) \<Rightarrow> ('o, 'r) batch_state \<Rightarrow> bool" where
  "batch_inv n cap op I st =
     (length (pcs st) = n \<and> length (outcomes st) = n
      \<and> semaphore st = length (filter holding (pcs st)) \<and> semaphore st \<le> cap
      \<and> wg st = length (filter (\<lambda>p. p \<noteq> Ended) (pcs st))
      \<and> (\<forall>i<n. pcs st ! i = AtStore \<longrightarrow> outcomes st ! i = Some (op i))
      \<and> I {i. i < n \<and> stored (pcs st ! i)} (results st))"

text \<open>
  The results of a batch that writes by index, and of one that appends, when the
  goroutines in \<open>S\<close> have stored theirs; \<open>entry i\<close> is the result of item \<open>i\<close>.
\<close>

definition indexed_results ::
  "nat \<Rightarrow> (nat \<Rightarrow> BatchResult) \<Rightarrow> nat set \<Rightarrow> BatchResult option list \<Rightarrow> bool" where
  "indexed_results n entry S rs =
     (length rs = n \<and> (\<forall>i<n. rs ! i = (if i \<in> S then Some (entry i) else None)))"

definition appended_results ::
  "(nat \<Rightarrow> BatchResult) \<Rightarrow> nat set \<Rightarrow> BatchResult option list \<Rightarrow> bool" where
  "appended_results entry S rs =
     (\<exists>order. distinct order \<and> set order = S \<and> rs = map (\<lambda>i. Some (entry i)) order)"

text \<open>
  The invariant of the goroutines that list calendars: \<open>call i\<close> is what the listing
  of calendar \<open>i\<close> returns, and the error channel holds a value exactly when a
  goroutine whose listing failed has ended.
\<close>

definition list_inv :: "nat \<Rightarrow> (nat \<Rightarrow> goerror + gEvent list) \<Rightarrow> list_state \<Rightarrow> bool" where
  "list_inv n call st =
     (length (lpcs st) = n \<and> length (listed st) = n
      \<and> lwg st = length (filter (\<lambda>p. p \<noteq> ListEnded) (lpcs st))
      \<and> (\<forall>i<n. lpcs st ! i = ListAtCollect \<longrightarrow> listed st ! i = Some (call i))
      \<and> ((errorsChan st \<noteq> []) = (\<exists>i<n. lpcs st ! i = ListEnded \<and> isl (call i))))"

text \<open>
  The steps a goroutine still has to take, and their sum over the goroutines: it
  measures how far a batch, or a listing of several calendars, is from its end.
\<close>

fun steps_left :: "pc \<Rightarrow> nat" where
  "steps_left AtAcquire = 5"
| "steps_left AtCall = 4"
| "steps_left AtStore = 3"
| "steps_left AtRelease = 2"
| "steps_left AtDone = 1"
| "steps_left Ended = 0"

definition remaining :: "('o, 'r) batch_state \<Rightarrow> nat" where
  "remaining st = sum_list (map steps_left (pcs st))"

fun list_steps_left :: "list_pc \<Rightarrow> nat" where
  "list_steps_left ListAtCall = 2"
| "list_steps_left ListAtCollect = 1"
| "list_steps_left ListEnded = 0"

definition list_remaining :: "list_state \<Rightarrow> nat" where
  "list_remaining st = sum_list (map list_steps_left (lpcs st))"

text \<open>
  A result entry agrees with the call of its item: a success with the event, or a
  failure with an error.
\<close>

definition entry_of :: "(error_ref + Event) call \<Rightarrow> BatchResult \<Rightarrow> bool" where
  "entry_of out r =
     (case returned out of
        Inl err \<Rightarrow> \<not> Success r \<and> Event r = None \<and> Error r \<noteq> None
      | Inr event \<Rightarrow> Success r \<and> Event r = Some event \<and> Error r = None)"

definition deleted_entry_of :: "error_ref option call \<Rightarrow> BatchResult \<Rightarrow> bool" where
  "deleted_entry_of out r =
     (case returned out of
        Some err \<Rightarrow> \<not> Success r \<and> Error r \<noteq> None
      | None \<Rightarrow> Success r \<and> Error r = None)"

text \<open>The schedule that runs the goroutines one after the other, each to its end.\<close>

definition sequential_schedule :: "nat \<Rightarrow> nat list" where
  "sequential_schedule n = concat (map (\<lambda>i. replicate 5 i) [0..<n])"

section \<open>Example inputs\<close>

text \<open>
  A service that answers every free/busy request with the same busy periods for each
  calendar asked for and lists no events, a client of it, and times of day on
  Monday 2024-01-15 in UTC.
\<close>

definition example_service :: "gTimePeriod list \<Rightarrow> service" where
  "example_service busy =
     \<lparr>Freebusy_Query =
        (\<lambda>req. Inr (map (\<lambda>calID. (calID, \<lparr>gBusy = busy, gErrors = []\<rparr>)) (gItems req))),
      Events_List = (\<lambda>calendarID timeMin timeMax maxResults. Inr [])\<rparr>"

definition example_client :: "gTimePeriod list \<Rightarrow> client" where
  "example_client busy = NewClient (Some (example_service busy)) ''primary''"

definition clock_2024_01_15 :: "int \<Rightarrow> int \<Rightarrow> go_time" where
  "clock_2024_01_15 hour minute = time_Date 2024 1 15 hour minute 0 0 UTC"

text \<open>
  An event as the service lists it and as the program returns it, and a service whose
  calendar \<open>b\<close> cannot be listed while every other calendar has this one event.
\<close>

definition example_gEvent :: gEvent where
  "example_gEvent =
     \<lparr>gId = ''e1'', gSummary = ''Standup'', gDescription = [], gLocation = [],
      gStatus = ''confirmed'',
      gEventStart = Some \<lparr>gDateTime = ''2024-01-15T09:00:00Z'', gDate = [], gDateTimeZone = ''UTC''\<rparr>,
      gEventEnd = Some \<lparr>gDateTime = ''2024-01-15T09:15:00Z'', gDate = [], gDateTimeZone = ''UTC''\<rparr>,
      gAttendees = [], gRecurrence = []\<rparr>"

definition example_event :: Event where
  "example_event = convertEvent example_gEvent"

text \<open>
  What a call such as \<open>CreateEvent\<close> writes to the shared error object when its remote
  call fails with \<open>e\<close>, in a client with three retries: \<open>withRetry\<close> sets the details
  and wraps \<open>e\<close>, then \<open>handleAPIError\<close>, which is given the \<open>ErrAPIError\<close> that
  \<open>withRetry\<close> returned and not a \<open>*googleapi.Error\<close>, sets the details again and
  wraps the error it was given, which is the object itself.
\<close>

definition remote_failure :: "string \<Rightarrow> goerror \<Rightarrow> shared_write list" where
  "remote_failure operation e =
     [SetDetails (operation @ '' failed after 4 attempts''), SetWrapped (Some (OwnError e)),
      SetDetails (operation @ '' failed''), SetWrapped (Some TheErrAPIError)]"

text \<open>
  Batches: five events to create, of which the one at index 3 is refused by the
  validation; two events to update and two to delete, of which \<open>b\<close> does not exist at
  the service; five events to create again, of which the service refuses those at the
  indexes 1 and 3 (not found, forbidden), to be created without \<open>ContinueOnError\<close>;
  and schedules that take the goroutines in turns, not in the order of their numbers.
\<close>

definition example_CreateEvent :: "nat \<Rightarrow> unit \<Rightarrow> (error_ref + Event) call" where
  "example_CreateEvent i ep =
     (if i = 3 then
        \<lparr>returned = Inl (OwnError (ErrInvalidInput ''attendees'' ''invalid email address: x'')),
         written = []\<rparr>
      else \<lparr>returned = Inr example_event, written = []\<rparr>)"

definition refused_CreateEvent :: "nat \<Rightarrow> unit \<Rightarrow> (error_ref + Event) call" where
  "refused_CreateEvent i ep =
     (if i = 1 then
        \<lparr>returned = Inl TheErrAPIError,
         written = remote_failure ''create event'' (GoogleapiError 404 ''Not Found'')\<rparr>
      else if i = 3 then
        \<lparr>returned = Inl TheErrAPIError,
         written = remote_failure ''create event'' (GoogleapiError 403 ''Forbidden'')\<rparr>
      else \<lparr>returned = Inr example_event, written = []\<rparr>)"

definition strict_create_params :: "unit BatchCreateParams" where
  "strict_create_params =
     \<lparr>ContinueOnError = False, MaxConcurrent = 2, Events = replicate 5 ()\<rparr>"

definition example_create_params :: "unit BatchCreateParams" where
  "example_create_params =
     \<lparr>ContinueOnError = True, MaxConcurrent = 0, Events = replicate 5 ()\<rparr>"

definition shuffled_schedule :: "nat list" where
  "shuffled_schedule = concat (replicate 5 [4, 2, 0, 3, 1])"

definition example_UpdateEvent :: "string \<Rightarrow> unit \<Rightarrow> (error_ref + Event) call" where
  "example_UpdateEvent eventID up =
     (if eventID = ''b'' then
        \<lparr>returned = Inl TheErrAPIError,
         written = remote_failure ''update event'' (GoogleapiError 404 ''Not Found'')\<rparr>
      else \<lparr>returned = Inr example_event, written = []\<rparr>)"

definition example_update_params :: "unit BatchUpdateParams" where
  "example_update_params =
     \<lparr>ContinueOnError = True, MaxConcurrent = 0, Updates = [(''a'', ()), (''b'', ())]\<rparr>"

definition example_DeleteEvent :: "string \<Rightarrow> error_ref option call" where
  "example_DeleteEvent eventID =
     (if eventID = ''b'' then
        \<lparr>returned = Some TheErrAPIError,
         written = remote_failure ''delete event'' (GoogleapiError 404 ''Not Found'')\<rparr>
      else \<lparr>returned = None, written = []\<rparr>)"

definition example_delete_params :: BatchDeleteParams where
  "example_delete_params =
     \<lparr>ContinueOnError = True, MaxConcurrent = 0, EventIDs = [''a'', ''b'']\<rparr>"

definition second_first_schedule :: "nat list" where
  "second_first_schedule = [1, 1, 1, 1, 1, 0, 0, 0, 0, 0]"

definition contended_schedule :: "nat list" where
  "contended_schedule = concat (replicate 15 [4, 2, 0, 3, 1])"

definition failing_list_service :: service where
  "failing_list_service =
     \<lparr>Freebusy_Query = (\<lambda>req. Inr []),
      Events_List = (\<lambda>calendarID timeMin timeMax maxResults.
                       if calendarID = ''b'' then Inl (GoogleapiError 404 ''Not Found'')
                       else Inr [example_gEvent])\<rparr>"

text \<open>
  The zone America/New\_York with its changes of offset from 2023 to 2025 (five hours
  west of UTC, four in summer), 10:00 there on Monday 2024-01-15, and two processes
  whose clocks show that instant and one hour later.
\<close>

definition America_New_York :: location where
  "America_New_York =
     \<lparr>locName = ''America/New_York'', initialOffset = - 18000,
      transitions = [(1678604400, - 14400), (1699164000, - 18000), (1710054000, - 14400),
                     (1730613600, - 18000), (1741503600, - 14400)]\<rparr>"

definition monday_10_00 :: go_time where
  "monday_10_00 = time_Date 2024 1 15 10 0 0 0 America_New_York"

definition process_at_10_00 :: ambient where
  "process_at_10_00 = \<lparr>clock = unixNano monday_10_00, Local = UTC\<rparr>"

definition process_at_11_00 :: ambient where
  "process_at_11_00 = \<lparr>clock = unixNano monday_10_00 + Hour, Local = UTC\<rparr>"

chapter \<open>Properties\<close>

section \<open>Properties of the retry executor\<close>

lemma withRetry_loop_calls_bound:
  "calls (snd (withRetry_loop c cancelled fn attempt lastErr eff))
     \<le> calls eff + nat (MaxRetries c + 1 - attempt)"
proof (induction c cancelled fn attempt lastErr eff rule: withRetry_loop.induct)
  case (1 c cancelled fn attempt lastErr eff)
  show ?case
  proof (cases "attempt \<le> MaxRetries c \<and> \<not> (attempt > 0 \<and> cancelled attempt)")
    case False
    then show ?thesis
      by (subst withRetry_loop.simps) auto
  next
    case go: True
    let ?eff1 = "(if attempt > 0 then eff\<lparr>waits := waits eff @ [backoff_delay c attempt]\<rparr> else eff)"
    let ?eff2 = "?eff1\<lparr>calls := Suc (calls ?eff1)\<rparr>"
    have c2: "calls ?eff2 = Suc (calls eff)" by simp
    show ?thesis
    proof (cases "fn (calls ?eff1)")
      case None
      with go show ?thesis
        by (subst withRetry_loop.simps) (auto simp: Let_def)
    next
      case (Some e)
      show ?thesis
      proof (cases "isRetryable e")
        case False
        with go Some show ?thesis
          by (subst withRetry_loop.simps) (auto simp: Let_def)
      next
        case True
        have IH: "calls (snd (withRetry_loop c cancelled fn (attempt + 1) (Some e) ?eff2))
                \<le> calls ?eff2 + nat (MaxRetries c + 1 - (attempt + 1))"
          using "1.IH"[OF _ _ refl refl refl Some _] go True by simp
        have step: "withRetry_loop c cancelled fn attempt lastErr eff
                  = withRetry_loop c cancelled fn (attempt + 1) (Some e) ?eff2"
          using go Some True by (subst withRetry_loop.simps) (auto simp: Let_def)
        show ?thesis using IH go unfolding step c2 by linarith
      qed
    qed
  qed
qed

text \<open>
  One retryable failure at attempt \<open>a\<close>, not cancelled: the loop goes on to attempt
  \<open>a + 1\<close>, having made one more call and (for \<open>a > 0\<close>) one more wait.
\<close>

lemma withRetry_loop_retry_step:
  assumes "fn (calls eff) = Some e'" "isRetryable e'" "int a \<le> MaxRetries c"
    and "0 < a \<longrightarrow> \<not> cancelled (int a)"
  shows "withRetry_loop c cancelled fn (int a) lastErr eff =
     withRetry_loop c cancelled fn (int (Suc a)) (Some e')
       \<lparr>calls = Suc (calls eff),
        waits = waits eff @ map (\<lambda>j. backoff_delay c (int j)) [max 1 a..<Suc a]\<rparr>"
  using assms
  by (cases eff) (subst withRetry_loop.simps, auto simp: Let_def add.commute max_def)

lemma withRetry_loop_all_retryable:
  assumes fails: "\<forall>k. \<exists>e. fn k = Some e \<and> isRetryable e"
    and nc: "\<forall>k. \<not> cancelled k"
    and M: "MaxRetries c = int m"
  shows "a \<le> Suc m \<Longrightarrow> calls eff = a \<Longrightarrow>
     withRetry_loop c cancelled fn (int a) lastErr eff =
       (LeftLoop (if a \<le> m then fn m else lastErr),
        \<lparr>calls = Suc m, waits = waits eff @ map (\<lambda>j. backoff_delay c (int j)) [max 1 a..<Suc m]\<rparr>)"
proof (induction "Suc m - a" arbitrary: a lastErr eff)
  case 0
  then have am: "a = Suc m" by simp
  show ?case using M am 0
    by (subst withRetry_loop.simps) (simp add: max_def)
next
  case (Suc n)
  then have lt: "a \<le> m" by simp
  from fails obtain e' where e': "fn a = Some e'" "isRetryable e'" by blast
  let ?eff2 = "\<lparr>calls = Suc (calls eff),
        waits = waits eff @ map (\<lambda>j. backoff_delay c (int j)) [max 1 a..<Suc a]\<rparr>"
  have step: "withRetry_loop c cancelled fn (int a) lastErr eff =
     withRetry_loop c cancelled fn (int (Suc a)) (Some e') ?eff2"
    using e' M lt nc Suc.prems by (intro withRetry_loop_retry_step) auto
  have IH: "withRetry_loop c cancelled fn (int (Suc a)) (Some e') ?eff2 =
       (LeftLoop (if Suc a \<le> m then fn m else Some e'),
        \<lparr>calls = Suc m, waits = waits ?eff2 @ map (\<lambda>j. backoff_delay c (int j)) [max 1 (Suc a)..<Suc m]\<rparr>)"
    using Suc.hyps(1)[of "Suc a" ?eff2 "Some e'"] Suc.hyps(2) lt Suc.prems by simp
  have w: "waits ?eff2 @ map (\<lambda>j. backoff_delay c (int j)) [max 1 (Suc a)..<Suc m]
      = waits eff @ map (\<lambda>j. backoff_delay c (int j)) [max 1 a..<Suc m]"
  proof (cases "a = 0")
    case True then show ?thesis by (simp add: max_def)
  next
    case False
    then have "[max 1 a..<Suc m] = a # [Suc a..<Suc m]" using lt
      by (simp add: max_def upt_conv_Cons)
    then show ?thesis using False by (simp add: max_def)
  qed
  have last: "(if Suc a \<le> m then fn m else Some e') = fn m"
    using e' lt Suc.prems by (cases "a = m") auto
  show ?case using step IH w last lt by simp
qed

lemma withRetry_loop_nonretryable:
  assumes pre: "\<forall>j<k. \<exists>e'. fn j = Some e' \<and> isRetryable e'"
    and nc: "\<forall>j. 0 < j \<and> j \<le> int k \<longrightarrow> \<not> cancelled j"
    and at: "fn k = Some e" and nr: "\<not> isRetryable e"
    and le: "int k \<le> MaxRetries c"
  shows "a \<le> k \<Longrightarrow> calls eff = a \<Longrightarrow>
     withRetry_loop c cancelled fn (int a) lastErr eff =
       (LeftLoop (Some e),
        \<lparr>calls = Suc k, waits = waits eff @ map (\<lambda>j. backoff_delay c (int j)) [max 1 a..<Suc k]\<rparr>)"
proof (induction "k - a" arbitrary: a lastErr eff)
  case 0
  then have ak: "a = k" by simp
  show ?case
    using at nr le nc 0 ak
    by (subst withRetry_loop.simps) (auto simp: Let_def max_def)
next
  case (Suc n)
  then have lt: "a < k" by simp
  from pre lt obtain e' where e': "fn a = Some e'" "isRetryable e'" by blast
  let ?eff2 = "\<lparr>calls = Suc (calls eff),
        waits = waits eff @ map (\<lambda>j. backoff_delay c (int j)) [max 1 a..<Suc a]\<rparr>"
  have step: "withRetry_loop c cancelled fn (int a) lastErr eff =
     withRetry_loop c cancelled fn (int (Suc a)) (Some e') ?eff2"
    using e' le lt nc Suc.prems by (intro withRetry_loop_retry_step) auto
  have IH: "withRetry_loop c cancelled fn (int (Suc a)) (Some e') ?eff2 =
       (LeftLoop (Some e),
        \<lparr>calls = Suc k, waits = waits ?eff2 @ map (\<lambda>j. backoff_delay c (int j)) [max 1 (Suc a)..<Suc k]\<rparr>)"
    using Suc.hyps(1)[of "Suc a" ?eff2 "Some e'"] Suc.hyps(2) lt Suc.prems by simp
  have w: "waits ?eff2 @ map (\<lambda>j. backoff_delay c (int j)) [max 1 (Suc a)..<Suc k]
      = waits eff @ map (\<lambda>j. backoff_delay c (int j)) [max 1 a..<Suc k]"
  proof (cases "a = 0")
    case True then show ?thesis by (simp add: max_def)
  next
    case False
    then have "[max 1 a..<Suc k] = a # [Suc a..<Suc k]" using lt
      by (simp add: max_def upt_conv_Cons)
    then show ?thesis using False by (simp add: max_def)
  qed
  show ?case using step IH w by simp
qed

text \<open>
  Claim C1, as the code has it.  Whatever the wrapped function and the cancellation
  do, \<open>withRetry\<close> returns having called the function at most \<open>MaxRetries + 1\<close>
  times.  When every call fails with a retryable error and no backoff wait is
  cancelled, it calls the function exactly \<open>MaxRetries + 1\<close> times (the first attempt
  and \<open>MaxRetries\<close> retries, so 4 calls for the default \<open>MaxRetries = 3\<close>), waits
  before each retry, and returns an \<open>API_ERROR\<close> that wraps the last error.
\<close>

theorem withRetry_retryable_exhausts:
  "calls (snd (withRetry c cancelled operation fn)) \<le> nat (MaxRetries c + 1) \<and>
   (0 \<le> MaxRetries c \<and> (\<forall>k. \<exists>e. fn k = Some e \<and> isRetryable e) \<and> (\<forall>k. \<not> cancelled k) \<longrightarrow>
      withRetry c cancelled operation fn =
        (Some (AppError ErrCodeAPIError ''API operation failed''
                 (operation @ '' failed after '' @ itoa (MaxRetries c + 1) @ '' attempts'')
                 True [] (fn (nat (MaxRetries c)))),
         \<lparr>calls = nat (MaxRetries c) + 1,
          waits = map (\<lambda>j. backoff_delay c (int j)) [1..<nat (MaxRetries c) + 1]\<rparr>))"
proof
  have "calls (snd (withRetry_loop c cancelled fn 0 None \<lparr>calls = 0, waits = []\<rparr>))
          \<le> nat (MaxRetries c + 1)"
    using withRetry_loop_calls_bound[of c cancelled fn 0 None "\<lparr>calls = 0, waits = []\<rparr>"]
    by simp
  then show "calls (snd (withRetry c cancelled operation fn)) \<le> nat (MaxRetries c + 1)"
    by (cases "withRetry_loop c cancelled fn 0 None \<lparr>calls = 0, waits = []\<rparr>";
        cases "fst (withRetry_loop c cancelled fn 0 None \<lparr>calls = 0, waits = []\<rparr>)")
       (simp_all add: withRetry_def)
next
  show "0 \<le> MaxRetries c \<and> (\<forall>k. \<exists>e. fn k = Some e \<and> isRetryable e) \<and> (\<forall>k. \<not> cancelled k) \<longrightarrow>
      withRetry c cancelled operation fn =
        (Some (AppError ErrCodeAPIError ''API operation failed''
                 (operation @ '' failed after '' @ itoa (MaxRetries c + 1) @ '' attempts'')
                 True [] (fn (nat (MaxRetries c)))),
         \<lparr>calls = nat (MaxRetries c) + 1,
          waits = map (\<lambda>j. backoff_delay c (int j)) [1..<nat (MaxRetries c) + 1]\<rparr>)"
  proof (intro impI, elim conjE)
    assume nn: "0 \<le> MaxRetries c" and fails: "\<forall>k. \<exists>e. fn k = Some e \<and> isRetryable e"
      and nc: "\<forall>k. \<not> cancelled k"
    from nn have M: "MaxRetries c = int (nat (MaxRetries c))" by simp
    have "withRetry_loop c cancelled fn (int 0) None \<lparr>calls = 0, waits = []\<rparr> =
       (LeftLoop (fn (nat (MaxRetries c))),
        \<lparr>calls = Suc (nat (MaxRetries c)),
         waits = map (\<lambda>j. backoff_delay c (int j)) [1..<Suc (nat (MaxRetries c))]\<rparr>)"
      using withRetry_loop_all_retryable[OF fails nc M, of 0 "\<lparr>calls = 0, waits = []\<rparr>" None]
      by simp
    then show "withRetry c cancelled operation fn =
        (Some (AppError ErrCodeAPIError ''API operation failed''
                 (operation @ '' failed after '' @ itoa (MaxRetries c + 1) @ '' attempts'')
                 True [] (fn (nat (MaxRetries c)))),
         \<lparr>calls = nat (MaxRetries c) + 1,
          waits = map (\<lambda>j. backoff_delay c (int j)) [1..<nat (MaxRetries c) + 1]\<rparr>)"
      by (simp add: withRetry_def ErrAPIError_def NewAppError_def)
  qed
qed

text \<open>
  The theorem at the default client, with a service that always answers 503: four
  calls, three waits of 1, 2 and 4 seconds.
\<close>

theorem withRetry_retryable_exhausts_witness:
  "withRetry (NewClient None ''primary'') (\<lambda>k. False) ''get event''
       (\<lambda>k. Some (GoogleapiError 503 ''unavailable'')) =
     (Some (AppError ''API_ERROR'' ''API operation failed'' ''get event failed after 4 attempts''
              True [] (Some (GoogleapiError 503 ''unavailable''))),
      \<lparr>calls = 4, waits = [1000000000, 2000000000, 4000000000]\<rparr>)"
  using withRetry_retryable_exhausts [of "NewClient None ''primary''" "\<lambda>k. False" "''get event''"
      "\<lambda>k. Some (GoogleapiError 503 ''unavailable'')"]
  by (simp add: NewClient_def ErrCodeAPIError_def itoa_def nat_digits.simps digit_char_def
      backoff_delay_def upt_conv_Cons numeral_eq_Suc)

text \<open>
  The claim's count fails at the default client: \<open>MaxRetries\<close> is 3 and the function
  is called 4 times.
\<close>

theorem withRetry_default_attempts_counterexample:
  "MaxRetries (NewClient None ''primary'') = 3 \<and>
   calls (snd (withRetry (NewClient None ''primary'') (\<lambda>k. False) ''get event''
        (\<lambda>k. Some (GoogleapiError 503 ''unavailable'')))) = 4"
  by (simp add: withRetry_def withRetry_loop.simps NewClient_def Let_def)

text \<open>
  Claim C2, as the code has it.  When the calls before the \<open>k\<close>-th failed with
  retryable errors, no wait before them was cancelled, and the \<open>k\<close>-th call (within the
  budget) fails with an error that is not retryable, \<open>withRetry\<close> stops there: \<open>k + 1\<close>
  calls in all, the \<open>k\<close> waits that preceded them and none after, and the value
  returned is an \<open>API_ERROR\<close> whose wrapped error is the error of that call.
\<close>

theorem withRetry_nonretryable_stops:
  assumes "\<forall>j<k. \<exists>e'. fn j = Some e' \<and> isRetryable e'"
    and "\<forall>j. 0 < j \<and> j \<le> int k \<longrightarrow> \<not> cancelled j"
    and "fn k = Some e" and "\<not> isRetryable e"
    and "int k \<le> MaxRetries c"
  shows "\<exists>details.
     withRetry c cancelled operation fn =
       (Some (AppError ErrCodeAPIError ''API operation failed'' details True [] (Some e)),
        \<lparr>calls = Suc k, waits = map (\<lambda>j. backoff_delay c (int j)) [1..<Suc k]\<rparr>)"
proof -
  have "withRetry_loop c cancelled fn (int 0) None \<lparr>calls = 0, waits = []\<rparr> =
       (LeftLoop (Some e),
        \<lparr>calls = Suc k, waits = map (\<lambda>j. backoff_delay c (int j)) [1..<Suc k]\<rparr>)"
    using withRetry_loop_nonretryable[OF assms, of 0 "\<lparr>calls = 0, waits = []\<rparr>" None] by simp
  then show ?thesis
    by (simp add: withRetry_def ErrAPIError_def NewAppError_def)
qed

text \<open>
  The theorem at the default client, with a service that answers 503, then 429, then 404.
\<close>

theorem withRetry_nonretryable_stops_witness:
  "\<exists>details.
     withRetry (NewClient None ''primary'') (\<lambda>k. False) ''get event''
       (\<lambda>k. Some (GoogleapiError (if k = 0 then 503 else if k = 1 then 429 else 404) ''x'')) =
     (Some (AppError ErrCodeAPIError ''API operation failed'' details True []
              (Some (GoogleapiError 404 ''x''))),
      \<lparr>calls = 3, waits = [1000000000, 2000000000]\<rparr>)"
  using withRetry_nonretryable_stops [of 2
      "\<lambda>k. Some (GoogleapiError (if k = 0 then 503 else if k = 1 then 429 else 404) ''x'')"
      "\<lambda>k. False" "GoogleapiError 404 ''x''" "NewClient None ''primary''" "''get event''"]
  by (simp add: NewClient_def backoff_delay_def less_Suc_eq numeral_2_eq_2 numeral_3_eq_3)

text \<open>
  The claim fails on a service that answers 404: what \<open>withRetry\<close> returns is neither
  that error nor its classification by \<open>handleAPIError\<close> (a \<open>NOT_FOUND\<close>).
\<close>

theorem withRetry_nonretryable_wrapped_counterexample:
  "fst (withRetry (NewClient None ''primary'') (\<lambda>k. False) ''get event''
          (\<lambda>k. Some (GoogleapiError 404 ''Not Found'')))
     = Some (AppError ''API_ERROR'' ''API operation failed'' ''get event failed after 4 attempts''
               True [] (Some (GoogleapiError 404 ''Not Found'')))
   \<and> fst (withRetry (NewClient None ''primary'') (\<lambda>k. False) ''get event''
          (\<lambda>k. Some (GoogleapiError 404 ''Not Found'')))
     \<noteq> Some (GoogleapiError 404 ''Not Found'')
   \<and> fst (withRetry (NewClient None ''primary'') (\<lambda>k. False) ''get event''
          (\<lambda>k. Some (GoogleapiError 404 ''Not Found'')))
     \<noteq> handleAPIError (Some (GoogleapiError 404 ''Not Found'')) ''get event''"
  by (simp add: withRetry_def withRetry_loop.simps NewClient_def Let_def ErrAPIError_def
      NewAppError_def ErrCodeAPIError_def itoa_def nat_digits.simps digit_char_def
      ErrNotFound_def ErrCodeNotFound_def)

section \<open>Properties of the free-slot enumeration\<close>

lemma time_Add_0 [simp]: "time_Add t 0 = t"
  by (simp add: time_Add_def)

lemma time_Add_Add: "time_Add (time_Add t a) b = time_Add t (a + b)"
  by (simp add: time_Add_def)

lemma stride_Suc: "stride start d (Suc n) = start # stride (time_Add start d) d n"
proof -
  have "[0..<Suc n] = 0 # map Suc [0..<n]"
    by (simp add: upt_conv_Cons map_Suc_upt del: upt_Suc)
  then show ?thesis
    by (simp add: stride_def time_Add_Add algebra_simps comp_def del: upt_Suc)
qed

lemma loop_continue:
  "(time_Before (time_Add current d) end \<or> time_Equal (time_Add current d) end)
     = (unixNano current + d \<le> unixNano end)"
  by (auto simp: time_Before_def time_Equal_def time_Add_def)

lemma le_div_iff_int:
  assumes "0 < (d::int)"
  shows "(a \<le> b div d) = (a * d \<le> b)"
proof
  assume "a \<le> b div d"
  then have "a * d \<le> (b div d) * d" using assms by (simp add: mult_right_mono)
  also have "\<dots> \<le> b"
    using assms by (metis mult.commute mult_div_mod_eq le_add_same_cancel1 pos_mod_sign)
  finally show "a * d \<le> b" .
next
  assume "a * d \<le> b"
  then have "(a * d) div d \<le> b div d" using assms by (rule zdiv_mono1)
  then show "a \<le> b div d" using assms by simp
qed

text \<open>Which stride positions are counted: those whose slot ends by \<open>end\<close>.\<close>

lemma slot_count_iff:
  assumes "0 < d"
  shows "(k < slot_count start end d) = (unixNano start + (int k + 1) * d \<le> unixNano end)"
proof -
  have "(k < slot_count start end d) = (int k + 1 \<le> (unixNano end - unixNano start) div d)"
    by (auto simp: slot_count_def)
  also have "\<dots> = ((int k + 1) * d \<le> unixNano end - unixNano start)"
    using assms by (rule le_div_iff_int)
  finally show ?thesis by (simp add: algebra_simps)
qed

lemma FindFreeSlots_loop_result:
  assumes d: "0 < d"
  shows "FindFreeSlots_loop bp end d current acc =
     Some (acc @ filter (\<lambda>t. slot_isFree t (time_Add t d) bp)
                   (stride current d (slot_count current end d)))"
proof (induction "slot_count current end d" arbitrary: current acc)
  case 0
  then have "\<not> (0 < slot_count current end d)" by simp
  then have stop: "\<not> (unixNano current + d \<le> unixNano end)"
    using slot_count_iff[OF d, of 0 current "end"] by simp
  show ?case using 0 stop
    by (subst FindFreeSlots_loop.simps) (simp add: loop_continue stride_def)
next
  case (Suc n)
  then have "0 < slot_count current end d" by simp
  then have ge: "unixNano current + d \<le> unixNano end"
    using slot_count_iff[OF d, of 0 current "end"] by simp
  have "(unixNano end - unixNano current) div d = int (Suc n)"
    using Suc.hyps(2) by (simp add: slot_count_def)
  then have "(unixNano end - unixNano current - d) div d = int n"
    using d div_add_self2[of d "unixNano end - unixNano current - d"] by simp
  then have n: "n = slot_count (time_Add current d) end d"
    by (simp add: slot_count_def time_Add_def algebra_simps)
  have sc: "slot_count current end d = Suc n" using Suc.hyps(2) by simp
  show ?case
    using ge Suc.hyps(1)[OF n] n
    by (subst FindFreeSlots_loop.simps) (simp add: loop_continue sc stride_Suc)
qed

lemma FindFreeSlots_loop_Some_progress:
  assumes "FindFreeSlots_loop bp end d current acc = Some r"
  shows "\<not> (d \<le> 0 \<and> unixNano current + d \<le> unixNano end)"
proof (rule FindFreeSlots_loop.raw_induct
    [where P = "\<lambda>bp e d current acc r. \<not> (d \<le> 0 \<and> unixNano current + d \<le> unixNano e)",
     OF _ assms], goal_cases)
  case (1 loop bp e d current acc r)
  show ?case
  proof
    assume inv: "d \<le> 0 \<and> unixNano current + d \<le> unixNano e"
    then have "loop bp e d (time_Add current d)
        (if slot_isFree current (time_Add current d) bp then acc @ [current] else acc) = Some r"
      using 1(2) by (simp add: loop_continue)
    from 1(1)[OF this] inv show False by (simp add: time_Add_def)
  qed
qed

lemma FindFreeSlots_loop_diverges:
  "d \<le> 0 \<Longrightarrow> unixNano current + d \<le> unixNano end \<Longrightarrow>
   FindFreeSlots_loop bp end d current acc = None"
  using FindFreeSlots_loop_Some_progress[of bp "end" d current acc]
  by (cases "FindFreeSlots_loop bp end d current acc") auto

lemma FindCommonFreeTime_loop_result:
  assumes d: "0 < d"
  shows "FindCommonFreeTime_loop bp end d current acc =
     Some (acc @ filter (\<lambda>t. slot_isFree t (time_Add t d) bp)
                   (stride current d (slot_count current end d)))"
proof (induction "slot_count current end d" arbitrary: current acc)
  case 0
  then have "\<not> (0 < slot_count current end d)" by simp
  then have stop: "\<not> (unixNano current + d \<le> unixNano end)"
    using slot_count_iff[OF d, of 0 current "end"] by simp
  show ?case using 0 stop
    by (subst FindCommonFreeTime_loop.simps) (simp add: loop_continue stride_def)
next
  case (Suc n)
  then have "0 < slot_count current end d" by simp
  then have ge: "unixNano current + d \<le> unixNano end"
    using slot_count_iff[OF d, of 0 current "end"] by simp
  have "(unixNano end - unixNano current) div d = int (Suc n)"
    using Suc.hyps(2) by (simp add: slot_count_def)
  then have "(unixNano end - unixNano current - d) div d = int n"
    using d div_add_self2[of d "unixNano end - unixNano current - d"] by simp
  then have n: "n = slot_count (time_Add current d) end d"
    by (simp add: slot_count_def time_Add_def algebra_simps)
  have sc: "slot_count current end d = Suc n" using Suc.hyps(2) by simp
  show ?case
    using ge Suc.hyps(1)[OF n] n
    by (subst FindCommonFreeTime_loop.simps) (simp add: loop_continue sc stride_Suc)
qed

lemma FindCommonFreeTime_loop_Some_progress:
  assumes "FindCommonFreeTime_loop bp end d current acc = Some r"
  shows "\<not> (d \<le> 0 \<and> unixNano current + d \<le> unixNano end)"
proof (rule FindCommonFreeTime_loop.raw_induct
    [where P = "\<lambda>bp e d current acc r. \<not> (d \<le> 0 \<and> unixNano current + d \<le> unixNano e)",
     OF _ assms], goal_cases)
  case (1 loop bp e d current acc r)
  show ?case
  proof
    assume inv: "d \<le> 0 \<and> unixNano current + d \<le> unixNano e"
    then have "loop bp e d (time_Add current d)
        (if slot_isFree current (time_Add current d) bp then acc @ [current] else acc) = Some r"
      using 1(2) by (simp add: loop_continue)
    from 1(1)[OF this] inv show False by (simp add: time_Add_def)
  qed
qed

lemma FindCommonFreeTime_loop_diverges:
  "d \<le> 0 \<Longrightarrow> unixNano current + d \<le> unixNano end \<Longrightarrow>
   FindCommonFreeTime_loop bp end d current acc = None"
  using FindCommonFreeTime_loop_Some_progress[of bp "end" d current acc]
  by (cases "FindCommonFreeTime_loop bp end d current acc") auto

text \<open>The example service answers a one-hour window on one calendar.\<close>

lemma example_query:
  "QueryFreeBusy (example_client [])
     (single_calendar_request ''cal1'' (clock_2024_01_15 9 0) (clock_2024_01_15 10 0))
   = Inr \<lparr>Calendars = [(''cal1'', \<lparr>infoCalendarID = ''cal1'', Busy = [], Errors = []\<rparr>)],
          respTimeMin = ''2024-01-15T09:00:00Z'', respTimeMax = ''2024-01-15T10:00:00Z''\<rparr>"
  by code_simp

text \<open>
  Claim C6.  When the free/busy query for the window succeeds and lists no busy period
  for the calendar, and the slot duration \<open>d\<close> is positive, \<open>FindFreeSlots\<close> returns
  exactly the stride positions \<open>start\<close>, \<open>start + d\<close>, \<open>start + 2d\<close>, ... in this
  order, and the position number \<open>k\<close> is among them exactly when its slot ends by
  \<open>end\<close>: the enumeration stops at the first candidate \<open>t\<close> with \<open>t + d > end\<close>.
\<close>

theorem FindFreeSlots_empty_busy_exhaustive:
  assumes "QueryFreeBusy c (single_calendar_request calendarID start end) = Inr response"
    and "calendar_lookup (Calendars response) calendarID = Some calInfo"
    and "Busy calInfo = []"
    and "0 < slotDuration"
  shows "FindFreeSlots c calendarID start end slotDuration =
           Some (Inr (map (\<lambda>k. time_Add start (int k * slotDuration))
                        [0..<slot_count start end slotDuration]))
         \<and> (\<forall>k. (k < slot_count start end slotDuration) =
                 (unixNano (time_Add start (int k * slotDuration)) + slotDuration
                    \<le> unixNano end))"
proof
  show "FindFreeSlots c calendarID start end slotDuration =
           Some (Inr (map (\<lambda>k. time_Add start (int k * slotDuration))
                        [0..<slot_count start end slotDuration]))"
    using assms
    by (simp add: FindFreeSlots_def FindFreeSlots_loop_result stride_def)
next
  show "\<forall>k. (k < slot_count start end slotDuration) =
                 (unixNano (time_Add start (int k * slotDuration)) + slotDuration
                    \<le> unixNano end)"
    using slot_count_iff[OF assms(4), of _ start "end"]
    by (simp add: time_Add_def algebra_simps)
qed

text \<open>
  The theorem on the example: no busy period between 09:00 and 10:00, slots of 15
  minutes; the four slots from 09:00 to 09:45.
\<close>

theorem FindFreeSlots_empty_busy_exhaustive_witness:
  "FindFreeSlots (example_client []) ''cal1'' (clock_2024_01_15 9 0) (clock_2024_01_15 10 0)
     (15 * Minute)
   = Some (Inr [clock_2024_01_15 9 0, clock_2024_01_15 9 15, clock_2024_01_15 9 30,
                clock_2024_01_15 9 45])"
proof -
  have look: "calendar_lookup
        (Calendars \<lparr>Calendars = [(''cal1'', \<lparr>infoCalendarID = ''cal1'', Busy = [], Errors = []\<rparr>)],
          respTimeMin = ''2024-01-15T09:00:00Z'', respTimeMax = ''2024-01-15T10:00:00Z''\<rparr>)
        ''cal1'' = Some \<lparr>infoCalendarID = ''cal1'', Busy = [], Errors = []\<rparr>"
    by (simp add: calendar_lookup_def)
  have pos: "0 < 15 * Minute" by (simp add: Minute_def Second_def)
  have ev: "map (\<lambda>k. time_Add (clock_2024_01_15 9 0) (int k * (15 * Minute)))
              [0..<slot_count (clock_2024_01_15 9 0) (clock_2024_01_15 10 0) (15 * Minute)]
        = [clock_2024_01_15 9 0, clock_2024_01_15 9 15, clock_2024_01_15 9 30,
           clock_2024_01_15 9 45]"
    by code_simp
  show ?thesis
    using FindFreeSlots_empty_busy_exhaustive [OF example_query look _ pos] ev by simp
qed

text \<open>
  Without the condition on the slot duration the call need not return at all: no busy
  period between 09:00 and 09:30 and a slot duration of zero.
\<close>

theorem FindFreeSlots_zero_duration_counterexample:
  "FindFreeSlots (example_client []) ''cal1'' (clock_2024_01_15 9 0) (clock_2024_01_15 9 30) 0
   = None"
proof -
  have q: "QueryFreeBusy (example_client [])
     (single_calendar_request ''cal1'' (clock_2024_01_15 9 0) (clock_2024_01_15 9 30))
   = Inr \<lparr>Calendars = [(''cal1'', \<lparr>infoCalendarID = ''cal1'', Busy = [], Errors = []\<rparr>)],
          respTimeMin = ''2024-01-15T09:00:00Z'', respTimeMax = ''2024-01-15T09:30:00Z''\<rparr>"
    by code_simp
  have look: "calendar_lookup
        (Calendars \<lparr>Calendars = [(''cal1'', \<lparr>infoCalendarID = ''cal1'', Busy = [], Errors = []\<rparr>)],
          respTimeMin = ''2024-01-15T09:00:00Z'', respTimeMax = ''2024-01-15T09:30:00Z''\<rparr>)
        ''cal1'' = Some \<lparr>infoCalendarID = ''cal1'', Busy = [], Errors = []\<rparr>"
    by (simp add: calendar_lookup_def)
  have le: "unixNano (clock_2024_01_15 9 0) + 0 \<le> unixNano (clock_2024_01_15 9 30)"
    by code_simp
  have "FindFreeSlots_loop [] (clock_2024_01_15 9 30) 0 (clock_2024_01_15 9 0) [] = None"
    using le by (intro FindFreeSlots_loop_diverges) simp_all
  then show ?thesis
    using q look by (simp add: FindFreeSlots_def)
qed

text \<open>
  Claim C10.  With a positive slot duration both enumerations return, whatever the
  other arguments and the service.  No check precedes the loops: with a slot duration
  of zero or less and a first candidate that ends by \<open>end\<close>, once the free/busy query
  has succeeded (and, for \<open>FindFreeSlots\<close>, has an entry for the calendar) the loop
  is entered and never left.
\<close>

theorem slot_loops_terminate_when_positive:
  "(0 < slotDuration \<longrightarrow>
      (\<exists>r. FindFreeSlots c calendarID start end slotDuration = Some r)
      \<and> (\<exists>r. FindCommonFreeTime c calendarIDs start end slotDuration = Some r))
   \<and> (slotDuration \<le> 0 \<and> unixNano start + slotDuration \<le> unixNano end \<longrightarrow>
        ((\<exists>response calInfo.
             QueryFreeBusy c (single_calendar_request calendarID start end) = Inr response
             \<and> calendar_lookup (Calendars response) calendarID = Some calInfo)
           \<longrightarrow> FindFreeSlots c calendarID start end slotDuration = None)
        \<and> ((\<exists>response.
               Service c \<noteq> None \<and> calendarIDs \<noteq> []
               \<and> QueryFreeBusy c \<lparr>TimeMin = Format_RFC3339 start, TimeMax = Format_RFC3339 end,
                                   CalendarIDs = calendarIDs, TimeZone = []\<rparr> = Inr response)
             \<longrightarrow> FindCommonFreeTime c calendarIDs start end slotDuration = None))"
proof (intro conjI impI)
  assume "0 < slotDuration"
  then show "\<exists>r. FindFreeSlots c calendarID start end slotDuration = Some r"
    by (simp add: FindFreeSlots_def FindFreeSlots_loop_result split: sum.split option.split)
next
  assume "0 < slotDuration"
  then show "\<exists>r. FindCommonFreeTime c calendarIDs start end slotDuration = Some r"
    by (simp add: FindCommonFreeTime_def FindCommonFreeTime_loop_result split: sum.split)
next
  assume "slotDuration \<le> 0 \<and> unixNano start + slotDuration \<le> unixNano end"
    and "\<exists>response calInfo.
             QueryFreeBusy c (single_calendar_request calendarID start end) = Inr response
             \<and> calendar_lookup (Calendars response) calendarID = Some calInfo"
  then show "FindFreeSlots c calendarID start end slotDuration = None"
    by (auto simp: FindFreeSlots_def FindFreeSlots_loop_diverges)
next
  assume "slotDuration \<le> 0 \<and> unixNano start + slotDuration \<le> unixNano end"
    and "\<exists>response.
               Service c \<noteq> None \<and> calendarIDs \<noteq> []
               \<and> QueryFreeBusy c \<lparr>TimeMin = Format_RFC3339 start, TimeMax = Format_RFC3339 end,
                                   CalendarIDs = calendarIDs, TimeZone = []\<rparr> = Inr response"
  then show "FindCommonFreeTime c calendarIDs start end slotDuration = None"
    by (auto simp: FindCommonFreeTime_def FindCommonFreeTime_loop_diverges)
qed

text \<open>
  The theorem on the example: with slots of 15 minutes both calls return, with a slot
  duration of zero neither does.
\<close>

theorem slot_loops_terminate_when_positive_witness:
  "(\<exists>r. FindFreeSlots (example_client []) ''cal1'' (clock_2024_01_15 9 0)
          (clock_2024_01_15 10 0) (15 * Minute) = Some r)
   \<and> (\<exists>r. FindCommonFreeTime (example_client []) [''cal1''] (clock_2024_01_15 9 0)
          (clock_2024_01_15 10 0) (15 * Minute) = Some r)
   \<and> FindFreeSlots (example_client []) ''cal1'' (clock_2024_01_15 9 0)
          (clock_2024_01_15 10 0) 0 = None
   \<and> FindCommonFreeTime (example_client []) [''cal1''] (clock_2024_01_15 9 0)
          (clock_2024_01_15 10 0) 0 = None"
proof -
  have look: "calendar_lookup
        (Calendars \<lparr>Calendars = [(''cal1'', \<lparr>infoCalendarID = ''cal1'', Busy = [], Errors = []\<rparr>)],
          respTimeMin = ''2024-01-15T09:00:00Z'', respTimeMax = ''2024-01-15T10:00:00Z''\<rparr>)
        ''cal1'' = Some \<lparr>infoCalendarID = ''cal1'', Busy = [], Errors = []\<rparr>"
    by (simp add: calendar_lookup_def)
  have pos: "0 < 15 * Minute" by (simp add: Minute_def Second_def)
  have le: "unixNano (clock_2024_01_15 9 0) + 0 \<le> unixNano (clock_2024_01_15 10 0)"
    by code_simp
  have svc: "Service (example_client []) \<noteq> None"
    by (simp add: example_client_def NewClient_def)
  have q: "QueryFreeBusy (example_client [])
       \<lparr>TimeMin = Format_RFC3339 (clock_2024_01_15 9 0),
        TimeMax = Format_RFC3339 (clock_2024_01_15 10 0),
        CalendarIDs = [''cal1''], TimeZone = []\<rparr>
     = Inr \<lparr>Calendars = [(''cal1'', \<lparr>infoCalendarID = ''cal1'', Busy = [], Errors = []\<rparr>)],
          respTimeMin = ''2024-01-15T09:00:00Z'', respTimeMax = ''2024-01-15T10:00:00Z''\<rparr>"
    using example_query by (simp add: single_calendar_request_def)
  show ?thesis
    using slot_loops_terminate_when_positive
            [of "15 * Minute" "example_client []" "''cal1''" "clock_2024_01_15 9 0"
                "clock_2024_01_15 10 0" "[''cal1'']"]
          slot_loops_terminate_when_positive
            [of 0 "example_client []" "''cal1''" "clock_2024_01_15 9 0"
                "clock_2024_01_15 10 0" "[''cal1'']"]
          pos le svc q example_query look
    by auto
qed

section \<open>Conflicts and busy status\<close>

text \<open>
  Claim C7, as the code has it.  \<open>IsBusy\<close> answers from the length of the busy list
  alone, \<open>CheckConflicts\<close> from the periods of it that overlap the window.  So the
  claim holds in the converse direction, and in the claimed direction when every busy
  period returned for the window overlaps it.
\<close>

theorem CheckConflicts_IsBusy_consistent:
  "(IsBusy c calendarID start end = Inr False \<longrightarrow>
      CheckConflicts c calendarID start end = Inr (False, []))
   \<and> ((\<exists>response calInfo.
          QueryFreeBusy c (single_calendar_request calendarID start end) = Inr response
          \<and> calendar_lookup (Calendars response) calendarID = Some calInfo
          \<and> (\<forall>period \<in> set (Busy calInfo). overlaps_window start end period))
       \<and> (\<exists>conflicts. CheckConflicts c calendarID start end = Inr (False, conflicts))
       \<longrightarrow> IsBusy c calendarID start end = Inr False)"
proof (intro conjI impI)
  assume "IsBusy c calendarID start end = Inr False"
  then show "CheckConflicts c calendarID start end = Inr (False, [])"
    by (auto simp: IsBusy_def CheckConflicts_def split: sum.splits option.splits)
next
  assume a: "(\<exists>response calInfo.
          QueryFreeBusy c (single_calendar_request calendarID start end) = Inr response
          \<and> calendar_lookup (Calendars response) calendarID = Some calInfo
          \<and> (\<forall>period \<in> set (Busy calInfo). overlaps_window start end period))
       \<and> (\<exists>conflicts. CheckConflicts c calendarID start end = Inr (False, conflicts))"
  then obtain response calInfo conflicts where
    q: "QueryFreeBusy c (single_calendar_request calendarID start end) = Inr response"
    and l: "calendar_lookup (Calendars response) calendarID = Some calInfo"
    and ov: "\<forall>period \<in> set (Busy calInfo). overlaps_window start end period"
    and cc: "CheckConflicts c calendarID start end = Inr (False, conflicts)"
    by blast
  have "filter (\<lambda>period. time_Before start (snd (parse_period period))
                           \<and> time_After end (fst (parse_period period))) (Busy calInfo)
          = Busy calInfo"
    using ov by (simp add: filter_id_conv overlaps_window_def)
  then have "Busy calInfo = []"
    using cc q l by (simp add: CheckConflicts_def Let_def)
  then show "IsBusy c calendarID start end = Inr False"
    using q l by (simp add: IsBusy_def)
qed

text \<open>
  The theorem on the example, where the calendar has no busy period between 09:00
  and 10:00.
\<close>

theorem CheckConflicts_IsBusy_consistent_witness:
  "IsBusy (example_client []) ''cal1'' (clock_2024_01_15 9 0) (clock_2024_01_15 10 0)
     = Inr False
   \<and> CheckConflicts (example_client []) ''cal1'' (clock_2024_01_15 9 0) (clock_2024_01_15 10 0)
     = Inr (False, [])"
proof -
  have look: "calendar_lookup
        (Calendars \<lparr>Calendars = [(''cal1'', \<lparr>infoCalendarID = ''cal1'', Busy = [], Errors = []\<rparr>)],
          respTimeMin = ''2024-01-15T09:00:00Z'', respTimeMax = ''2024-01-15T10:00:00Z''\<rparr>)
        ''cal1'' = Some \<lparr>infoCalendarID = ''cal1'', Busy = [], Errors = []\<rparr>"
    by (simp add: calendar_lookup_def)
  have cc: "CheckConflicts (example_client []) ''cal1'' (clock_2024_01_15 9 0)
              (clock_2024_01_15 10 0) = Inr (False, [])"
    using example_query look by (simp add: CheckConflicts_def)
  have "\<exists>response calInfo.
          QueryFreeBusy (example_client [])
            (single_calendar_request ''cal1'' (clock_2024_01_15 9 0) (clock_2024_01_15 10 0))
            = Inr response
          \<and> calendar_lookup (Calendars response) ''cal1'' = Some calInfo
          \<and> (\<forall>period \<in> set (Busy calInfo).
                overlaps_window (clock_2024_01_15 9 0) (clock_2024_01_15 10 0) period)"
    using example_query look by auto
  then have "IsBusy (example_client []) ''cal1'' (clock_2024_01_15 9 0) (clock_2024_01_15 10 0)
     = Inr False"
    using CheckConflicts_IsBusy_consistent
            [of "example_client []" "''cal1''" "clock_2024_01_15 9 0" "clock_2024_01_15 10 0"]
          cc
    by blast
  then show ?thesis using cc by simp
qed

text \<open>
  The claim fails when the service lists a busy period that only touches the window:
  asked about 10:00 to 11:00 on a calendar reported busy from 11:00 to 12:00,
  \<open>CheckConflicts\<close> finds no conflict and \<open>IsBusy\<close> answers that the calendar is busy.
\<close>

theorem CheckConflicts_IsBusy_counterexample:
  "CheckConflicts
     (example_client [\<lparr>gStart = ''2024-01-15T11:00:00Z'', gEnd = ''2024-01-15T12:00:00Z''\<rparr>])
     ''cal1'' (clock_2024_01_15 10 0) (clock_2024_01_15 11 0) = Inr (False, [])
   \<and> IsBusy
     (example_client [\<lparr>gStart = ''2024-01-15T11:00:00Z'', gEnd = ''2024-01-15T12:00:00Z''\<rparr>])
     ''cal1'' (clock_2024_01_15 10 0) (clock_2024_01_15 11 0) = Inr True"
  by code_simp


section \<open>Properties of the batch operations\<close>

subsection \<open>The scheduler keeps its invariant\<close>

lemma count_update:
  "i < length xs \<Longrightarrow>
   length (filter P (xs[i := y])) + (if P (xs ! i) then 1 else 0)
     = length (filter P xs) + (if P y then 1 else 0)"
proof (induction xs arbitrary: i)
  case Nil then show ?case by simp
next
  case (Cons x xs)
  then show ?case by (cases i) auto
qed

lemma stored_update:
  "i < length xs \<Longrightarrow> stored y = stored (xs ! i) \<Longrightarrow>
   {j. j < length xs \<and> stored (xs[i := y] ! j)} = {j. j < length xs \<and> stored (xs ! j)}"
  by (auto simp: nth_list_update)

lemma stored_insert:
  "i < length xs \<Longrightarrow> stored y \<Longrightarrow>
   {j. j < length xs \<and> stored (xs[i := y] ! j)} = insert i {j. j < length xs \<and> stored (xs ! j)}"
  by (auto simp: nth_list_update)

lemma goroutine_step_inv:
  assumes step: "\<And>S i r. i < n \<Longrightarrow> i \<notin> S \<Longrightarrow> I S r \<Longrightarrow> I (insert i S) (returned (store i (op i) r))"
    and inv: "batch_inv n cap op I st"
  shows "batch_inv n cap op I (goroutine_step cap op store st i)"
proof (cases "i < length (pcs st)")
  case False
  then show ?thesis using inv by (simp add: goroutine_step_def)
next
  case True
  note i = True
  from inv have len: "length (pcs st) = n" "length (outcomes st) = n"
    and sem: "semaphore st = length (filter holding (pcs st))" "semaphore st \<le> cap"
    and wgc: "wg st = length (filter (\<lambda>p. p \<noteq> Ended) (pcs st))"
    and out: "\<forall>i<n. pcs st ! i = AtStore \<longrightarrow> outcomes st ! i = Some (op i)"
    and res: "I {i. i < n \<and> stored (pcs st ! i)} (results st)"
    by (simp_all add: batch_inv_def)
  show ?thesis
  proof (cases "pcs st ! i")
    case AtAcquire
    show ?thesis
    proof (cases "semaphore st < cap")
      case False
      then show ?thesis using inv i AtAcquire by (simp add: goroutine_step_def)
    next
      case True
      have c1: "length (filter holding ((pcs st)[i := AtCall])) = Suc (length (filter holding (pcs st)))"
        using count_update[OF i, of holding AtCall] AtAcquire by (simp add: holding_def)
      have c2: "length (filter (\<lambda>p. p \<noteq> Ended) ((pcs st)[i := AtCall])) = length (filter (\<lambda>p. p \<noteq> Ended) (pcs st))"
        using count_update[OF i, of "\<lambda>p. p \<noteq> Ended" AtCall] AtAcquire by simp
      have s: "{j. j < n \<and> stored ((pcs st)[i := AtCall] ! j)} = {j. j < n \<and> stored (pcs st ! j)}"
        using stored_update[OF i, of AtCall] AtAcquire len by (simp add: stored_def)
      show ?thesis
        using True i AtAcquire len sem wgc out res c1 c2 s
        by (auto simp: goroutine_step_def batch_inv_def nth_list_update)
    qed
  next
    case AtCall
    have c1: "length (filter holding ((pcs st)[i := AtStore])) = length (filter holding (pcs st))"
      using count_update[OF i, of holding AtStore] AtCall by (simp add: holding_def)
    have c2: "length (filter (\<lambda>p. p \<noteq> Ended) ((pcs st)[i := AtStore])) = length (filter (\<lambda>p. p \<noteq> Ended) (pcs st))"
      using count_update[OF i, of "\<lambda>p. p \<noteq> Ended" AtStore] AtCall by simp
    have s: "{j. j < n \<and> stored ((pcs st)[i := AtStore] ! j)} = {j. j < n \<and> stored (pcs st ! j)}"
      using stored_update[OF i, of AtStore] AtCall len by (simp add: stored_def)
    show ?thesis
      using i AtCall len sem wgc out res c1 c2 s
      by (auto simp: goroutine_step_def batch_inv_def nth_list_update)
  next
    case AtStore
    then have o: "outcomes st ! i = Some (op i)" using out i len by simp
    have c1: "length (filter holding ((pcs st)[i := AtRelease])) = length (filter holding (pcs st))"
      using count_update[OF i, of holding AtRelease] AtStore by (simp add: holding_def)
    have c2: "length (filter (\<lambda>p. p \<noteq> Ended) ((pcs st)[i := AtRelease])) = length (filter (\<lambda>p. p \<noteq> Ended) (pcs st))"
      using count_update[OF i, of "\<lambda>p. p \<noteq> Ended" AtRelease] AtStore by simp
    have s: "{j. j < n \<and> stored ((pcs st)[i := AtRelease] ! j)} = insert i {j. j < n \<and> stored (pcs st ! j)}"
      using stored_insert[OF i, of AtRelease] len by (simp add: stored_def)
    have ni: "i \<notin> {j. j < n \<and> stored (pcs st ! j)}" using AtStore by (simp add: stored_def)
    have "I (insert i {j. j < n \<and> stored (pcs st ! j)}) (returned (store i (op i) (results st)))"
      using step[OF _ ni res] i len by simp
    then show ?thesis
      using i AtStore len sem wgc out o c1 c2 s
      by (auto simp: goroutine_step_def batch_inv_def nth_list_update)
  next
    case AtRelease
    have c1: "Suc (length (filter holding ((pcs st)[i := AtDone]))) = length (filter holding (pcs st))"
      using count_update[OF i, of holding AtDone] AtRelease by (simp add: holding_def)
    have c2: "length (filter (\<lambda>p. p \<noteq> Ended) ((pcs st)[i := AtDone])) = length (filter (\<lambda>p. p \<noteq> Ended) (pcs st))"
      using count_update[OF i, of "\<lambda>p. p \<noteq> Ended" AtDone] AtRelease by simp
    have s: "{j. j < n \<and> stored ((pcs st)[i := AtDone] ! j)} = {j. j < n \<and> stored (pcs st ! j)}"
      using stored_update[OF i, of AtDone] AtRelease len by (simp add: stored_def)
    show ?thesis
      using i AtRelease len sem wgc out res c1 c2 s
      by (auto simp: goroutine_step_def batch_inv_def nth_list_update)
  next
    case AtDone
    have c1: "length (filter holding ((pcs st)[i := Ended])) = length (filter holding (pcs st))"
      using count_update[OF i, of holding Ended] AtDone by (simp add: holding_def)
    have c2: "Suc (length (filter (\<lambda>p. p \<noteq> Ended) ((pcs st)[i := Ended]))) = length (filter (\<lambda>p. p \<noteq> Ended) (pcs st))"
      using count_update[OF i, of "\<lambda>p. p \<noteq> Ended" Ended] AtDone by simp
    have s: "{j. j < n \<and> stored ((pcs st)[i := Ended] ! j)} = {j. j < n \<and> stored (pcs st ! j)}"
      using stored_update[OF i, of Ended] AtDone len by (simp add: stored_def)
    show ?thesis
      using i AtDone len sem wgc out res c1 c2 s
      by (auto simp: goroutine_step_def batch_inv_def nth_list_update)
  next
    case Ended
    then show ?thesis using inv i by (simp add: goroutine_step_def)
  qed
qed

lemma batch_run_inv:
  assumes step: "\<And>S i r. i < n \<Longrightarrow> i \<notin> S \<Longrightarrow> I S r \<Longrightarrow> I (insert i S) (returned (store i (op i) r))"
  shows "batch_inv n cap op I st \<Longrightarrow> batch_inv n cap op I (batch_run cap op store schedule st)"
  unfolding batch_run_def
proof (induction schedule arbitrary: st)
  case Nil
  then show ?case by simp
next
  case (Cons i schedule)
  have "batch_inv n cap op I (goroutine_step cap op store st i)"
    using step Cons.prems by (rule goroutine_step_inv[where n = n and I = I])
  then show ?case using Cons.IH by simp
qed

lemma batch_start_inv:
  assumes "I {} r0"
  shows "batch_inv n cap op I (batch_start n r0)"
proof -
  have e: "{i. i < n \<and> stored (replicate n AtAcquire ! i)} = {}"
    by (auto simp: stored_def)
  show ?thesis
    using assms by (simp add: batch_inv_def batch_start_def holding_def e)
qed

lemma batch_inv_finished:
  assumes "batch_inv n cap op I st" "wg st = 0"
  shows "I {..<n} (results st)"
proof -
  from assms have "filter (\<lambda>p. p \<noteq> Ended) (pcs st) = []" by (simp add: batch_inv_def)
  then have "\<forall>p \<in> set (pcs st). p = Ended" by (simp add: filter_empty_conv)
  then have "\<forall>i<n. pcs st ! i = Ended" using assms(1) by (simp add: batch_inv_def)
  then have "{i. i < n \<and> stored (pcs st ! i)} = {..<n}" by (auto simp: stored_def)
  with assms(1) show ?thesis by (simp add: batch_inv_def)
qed

subsection \<open>Running the goroutines one after the other ends the call\<close>

lemma run_one:
  assumes i: "i < length (pcs st)" and at: "pcs st ! i = AtAcquire"
    and free: "semaphore st < cap" and lo: "length (outcomes st) = length (pcs st)"
  shows "batch_run cap op store (replicate 5 i) st =
           st\<lparr>pcs := (pcs st)[i := Ended], outcomes := (outcomes st)[i := Some (op i)],
               results := returned (store i (op i) (results st)), wg := wg st - 1,
               writes := writes st @ written (op i) @ written (store i (op i) (results st))\<rparr>"
  using assms
  by (simp add: batch_run_def goroutine_step_def numeral_eq_Suc)

lemma batch_run_append:
  "batch_run cap op store (a @ b) st = batch_run cap op store b (batch_run cap op store a st)"
  by (simp add: batch_run_def)

lemma sequential_prefix:
  assumes cap: "0 < cap"
  shows "k \<le> n \<Longrightarrow>
     pcs (batch_run cap op store (sequential_schedule k) (batch_start n r0))
        = replicate k Ended @ replicate (n - k) AtAcquire
     \<and> semaphore (batch_run cap op store (sequential_schedule k) (batch_start n r0)) = 0
     \<and> wg (batch_run cap op store (sequential_schedule k) (batch_start n r0)) = n - k
     \<and> length (outcomes (batch_run cap op store (sequential_schedule k) (batch_start n r0))) = n"
proof (induction k)
  case 0
  then show ?case by (simp add: sequential_schedule_def batch_run_def batch_start_def)
next
  case (Suc k)
  let ?st = "batch_run cap op store (sequential_schedule k) (batch_start n r0)"
  from Suc have IH: "pcs ?st = replicate k Ended @ replicate (n - k) AtAcquire"
    "semaphore ?st = 0" "wg ?st = n - k" "length (outcomes ?st) = n" by simp_all
  have k: "k < length (pcs ?st)" using Suc.prems IH(1) by simp
  have at: "pcs ?st ! k = AtAcquire" using Suc.prems IH(1) by (simp add: nth_append)
  have seq: "sequential_schedule (Suc k) = sequential_schedule k @ replicate 5 k"
    by (simp add: sequential_schedule_def)
  have lo: "length (outcomes ?st) = length (pcs ?st)" using IH Suc.prems by simp
  have run: "batch_run cap op store (sequential_schedule (Suc k)) (batch_start n r0) =
           ?st\<lparr>pcs := (pcs ?st)[k := Ended], outcomes := (outcomes ?st)[k := Some (op k)],
               results := returned (store k (op k) (results ?st)), wg := wg ?st - 1,
               writes := writes ?st @ written (op k) @ written (store k (op k) (results ?st))\<rparr>"
    unfolding seq batch_run_append
    using k at cap IH(2) lo by (intro run_one) simp_all
  have upd: "(replicate k Ended @ replicate (n - k) AtAcquire)[k := Ended]
               = replicate (Suc k) Ended @ replicate (n - Suc k) AtAcquire"
  proof -
    have nk: "n - k = Suc (n - Suc k)" using Suc.prems by simp
    have "(replicate k Ended @ AtAcquire # replicate (n - Suc k) AtAcquire)[k := Ended]
            = replicate k Ended @ Ended # replicate (n - Suc k) AtAcquire"
      using list_update_length[of "replicate k Ended" AtAcquire
              "replicate (n - Suc k) AtAcquire" Ended] by simp
    moreover have "replicate (Suc k) Ended @ replicate (n - Suc k) AtAcquire
            = replicate k Ended @ Ended # replicate (n - Suc k) AtAcquire"
      using replicate_append_same[of k Ended] by (metis append.assoc append_Cons append_Nil replicate_Suc)
    ultimately show ?thesis by (simp add: nk)
  qed
  show ?case
    unfolding run using IH upd Suc.prems by simp
qed

lemma sequential_completes:
  assumes "0 < cap"
  shows "wg (batch_run cap op store (sequential_schedule n) (batch_start n r0)) = 0"
  using sequential_prefix[OF assms, of n n op store r0] by simp

subsection \<open>What the three operations store\<close>

lemma semaphore_capacity_pos: "0 < semaphore_capacity m"
  by (simp add: semaphore_capacity_def)

lemma indexed_store:
  assumes "i < n" "i \<notin> S" "indexed_results n entry S rs"
  shows "indexed_results n entry (insert i S) (rs[i := Some (entry i)])"
  using assms by (auto simp: indexed_results_def nth_list_update)

lemma indexed_start: "indexed_results n entry {} (replicate n None)"
  by (simp add: indexed_results_def)

lemma appended_start: "appended_results entry {} []"
  by (simp add: appended_results_def)

lemma create_inv:
  "batch_inv (length (Events params)) (semaphore_capacity (MaxConcurrent params))
     (\<lambda>i. CreateEvent i (Events params ! i))
     (indexed_results (length (Events params))
        (\<lambda>i. create_result i (CreateEvent i (Events params ! i))))
     (BatchCreateEvents_state CreateEvent params schedule)"
  unfolding BatchCreateEvents_state_def
proof (rule batch_run_inv)
  show "batch_inv (length (Events params)) (semaphore_capacity (MaxConcurrent params))
     (\<lambda>i. CreateEvent i (Events params ! i))
     (indexed_results (length (Events params))
        (\<lambda>i. create_result i (CreateEvent i (Events params ! i))))
     (batch_start (length (Events params)) (replicate (length (Events params)) None))"
    using indexed_start by (rule batch_start_inv)
qed (auto simp: create_store_def indexed_results_def nth_list_update)

lemma delete_inv:
  "batch_inv (length (EventIDs params)) (semaphore_capacity (MaxConcurrent params))
     (\<lambda>i. DeleteEvent (EventIDs params ! i))
     (indexed_results (length (EventIDs params))
        (\<lambda>i. delete_result (EventIDs params) i (DeleteEvent (EventIDs params ! i))))
     (BatchDeleteEvents_state DeleteEvent params schedule)"
  unfolding BatchDeleteEvents_state_def
proof (rule batch_run_inv)
  show "batch_inv (length (EventIDs params)) (semaphore_capacity (MaxConcurrent params))
     (\<lambda>i. DeleteEvent (EventIDs params ! i))
     (indexed_results (length (EventIDs params))
        (\<lambda>i. delete_result (EventIDs params) i (DeleteEvent (EventIDs params ! i))))
     (batch_start (length (EventIDs params)) (replicate (length (EventIDs params)) None))"
    using indexed_start by (rule batch_start_inv)
qed (auto simp: delete_store_def indexed_results_def nth_list_update)

lemma Index_update_result [simp]: "Index (update_result ids i out) = i"
  by (simp add: update_result_def split: sum.split)

lemma appended_step:
  assumes "i \<notin> S" "appended_results entry S rs"
  shows "appended_results entry (insert i S) (rs @ [Some (entry i)])"
proof -
  from assms obtain order where o: "distinct order" "set order = S"
      "rs = map (\<lambda>i. Some (entry i)) order"
    by (auto simp: appended_results_def)
  then have "distinct (order @ [i]) \<and> set (order @ [i]) = insert i S
      \<and> rs @ [Some (entry i)] = map (\<lambda>i. Some (entry i)) (order @ [i])"
    using assms(1) by auto
  then show ?thesis unfolding appended_results_def by blast
qed

lemma update_inv:
  "batch_inv (length (Updates params)) (semaphore_capacity (MaxConcurrent params))
     (\<lambda>i. UpdateEvent (fst (Updates params ! i)) (snd (Updates params ! i)))
     (appended_results
        (\<lambda>i. update_result (map fst (Updates params)) i
               (UpdateEvent (fst (Updates params ! i)) (snd (Updates params ! i)))))
     (BatchUpdateEvents_state UpdateEvent params schedule)"
  unfolding BatchUpdateEvents_state_def
proof (rule batch_run_inv)
  let ?entry = "\<lambda>i. update_result (map fst (Updates params)) i
               (UpdateEvent (fst (Updates params ! i)) (snd (Updates params ! i)))"
  show "batch_inv (length (Updates params)) (semaphore_capacity (MaxConcurrent params))
     (\<lambda>i. UpdateEvent (fst (Updates params ! i)) (snd (Updates params ! i)))
     (appended_results ?entry)
     (batch_start (length (Updates params)) [])"
    using appended_start by (rule batch_start_inv)
  fix S i r
  assume "i \<notin> S" "appended_results ?entry S r"
  then have "appended_results ?entry (insert i S) (r @ [Some (?entry i)])"
    by (rule appended_step)
  then show "appended_results ?entry (insert i S)
      (returned (update_store (map fst (Updates params)) i
         (UpdateEvent (fst (Updates params ! i)) (snd (Updates params ! i))) r))"
    by (simp add: update_store_def)
qed

lemma first_failure_complete:
  "\<forall>r \<in> set rs. r \<noteq> None \<Longrightarrow> first_failure rs = Some (\<exists>r. Some r \<in> set rs \<and> \<not> Success r)"
proof (induction rs)
  case Nil then show ?case by simp
next
  case (Cons a rs)
  then show ?case by (cases a) auto
qed

lemma indexed_results_full:
  assumes "indexed_results n entry {..<n} rs"
  shows "rs = map (\<lambda>i. Some (entry i)) [0..<n]"
  using assms by (auto simp: indexed_results_def list_eq_iff_nth_eq)

subsection \<open>Every state can run on to the end\<close>

lemma remaining_update:
  assumes "i < length (pcs st)" "steps_left p < steps_left (pcs st ! i)"
  shows "sum_list (map steps_left ((pcs st)[i := p])) < sum_list (map steps_left (pcs st))"
proof -
  let ?xs = "map steps_left (pcs st)"
  have i: "i < length ?xs" using assms(1) by simp
  have "?xs ! i \<le> sum_list ?xs"
    using i by (rule elem_le_sum_list)
  moreover have "sum_list (?xs[i := steps_left p]) = sum_list ?xs + steps_left p - ?xs ! i"
    using i by (rule sum_list_update)
  moreover have "steps_left p < ?xs ! i" using assms by simp
  ultimately have "sum_list (?xs[i := steps_left p]) < sum_list ?xs" by linarith
  then show ?thesis by (simp add: map_update)
qed

lemma some_goroutine_moves:
  assumes inv: "batch_inv n cap op I st" and cap: "0 < cap" and open_: "wg st \<noteq> 0"
  shows "\<exists>i. remaining (goroutine_step cap op store st i) < remaining st"
proof -
  from inv have len: "length (pcs st) = n" "length (outcomes st) = n"
    and sem: "semaphore st = length (filter holding (pcs st))"
    and wgc: "wg st = length (filter (\<lambda>p. p \<noteq> Ended) (pcs st))"
    and out: "\<forall>i<n. pcs st ! i = AtStore \<longrightarrow> outcomes st ! i = Some (op i)"
    by (simp_all add: batch_inv_def)
  show ?thesis
  proof (cases "\<exists>j<n. pcs st ! j \<noteq> AtAcquire \<and> pcs st ! j \<noteq> Ended")
    case True
    then obtain j where j: "j < n" "pcs st ! j \<noteq> AtAcquire" "pcs st ! j \<noteq> Ended" by blast
    have jl: "j < length (pcs st)" using j len by simp
    have "remaining (goroutine_step cap op store st j) < remaining st"
    proof (cases "pcs st ! j")
      case AtCall
      then show ?thesis
        using jl remaining_update[OF jl, of AtStore]
        by (simp add: goroutine_step_def remaining_def)
    next
      case AtStore
      then have "outcomes st ! j = Some (op j)" using out j by simp
      then show ?thesis
        using jl AtStore remaining_update[OF jl, of AtRelease]
        by (simp add: goroutine_step_def remaining_def)
    next
      case AtRelease
      then show ?thesis
        using jl remaining_update[OF jl, of AtDone]
        by (simp add: goroutine_step_def remaining_def)
    next
      case AtDone
      then show ?thesis
        using jl remaining_update[OF jl, of Ended]
        by (simp add: goroutine_step_def remaining_def)
    qed (use j in simp_all)
    then show ?thesis by blast
  next
    case False
    then have all: "\<forall>j<n. pcs st ! j = AtAcquire \<or> pcs st ! j = Ended" by blast
    have "\<forall>p \<in> set (pcs st). \<not> holding p"
    proof
      fix p assume "p \<in> set (pcs st)"
      then obtain j where "j < length (pcs st)" "pcs st ! j = p" by (auto simp: in_set_conv_nth)
      then show "\<not> holding p" using all len by (auto simp: holding_def)
    qed
    then have "filter holding (pcs st) = []" by (simp add: filter_empty_conv)
    then have free: "semaphore st < cap" using sem cap by simp
    from open_ wgc have "filter (\<lambda>p. p \<noteq> Ended) (pcs st) \<noteq> []" by auto
    then obtain p where "p \<in> set (pcs st)" "p \<noteq> Ended" by (auto simp: filter_empty_conv)
    then obtain j where j: "j < length (pcs st)" "pcs st ! j \<noteq> Ended"
      by (auto simp: in_set_conv_nth)
    then have at: "pcs st ! j = AtAcquire" using all len by auto
    have "remaining (goroutine_step cap op store st j) < remaining st"
      using j at free remaining_update[OF j(1), of AtCall]
      by (simp add: goroutine_step_def remaining_def)
    then show ?thesis by blast
  qed
qed

lemma can_finish:
  assumes step: "\<And>S i r. i < n \<Longrightarrow> i \<notin> S \<Longrightarrow> I S r \<Longrightarrow> I (insert i S) (returned (store i (op i) r))"
    and cap: "0 < cap"
  shows "batch_inv n cap op I st \<Longrightarrow> \<exists>rest. wg (batch_run cap op store rest st) = 0"
proof (induction "remaining st" arbitrary: st rule: less_induct)
  case less
  show ?case
  proof (cases "wg st = 0")
    case True
    then have "wg (batch_run cap op store [] st) = 0" by (simp add: batch_run_def)
    then show ?thesis by blast
  next
    case False
    from some_goroutine_moves[OF less.prems cap False] obtain i where
      i: "remaining (goroutine_step cap op store st i) < remaining st" by blast
    have "batch_inv n cap op I (goroutine_step cap op store st i)"
      using step less.prems by (rule goroutine_step_inv[where n = n and I = I])
    from less.hyps[OF i this] obtain rest where
      "wg (batch_run cap op store rest (goroutine_step cap op store st i)) = 0" by blast
    then have "wg (batch_run cap op store (i # rest) st) = 0" by (simp add: batch_run_def)
    then show ?thesis by blast
  qed
qed

subsection \<open>What the three operations return\<close>

lemma batch_return_Some:
  assumes "\<forall>r \<in> set rs. r \<noteq> None"
  shows "returned (batch_return continue details rs) =
           Return rs (if \<not> continue \<and> (\<exists>r. Some r \<in> set rs \<and> \<not> Success r)
                      then Some TheErrAPIError else None)"
  using first_failure_complete[OF assms]
  by (cases "\<exists>r. Some r \<in> set rs \<and> \<not> Success r") (auto simp: batch_return_def)

lemma batch_end_returned:
  "returned (batch_end continue details st) =
     (if wg st \<noteq> 0 then Waiting else returned (batch_return continue details (results st)))"
  by (simp add: batch_end_def Let_def)

lemma BatchCreateEvents_empty:
  "Events cp = [] \<Longrightarrow> BatchCreateEvents CreateEvent cp schedule =
     Return [] (Some (OwnError (ErrInvalidInput ''events'' ''no events provided'')))"
  by (simp add: BatchCreateEvents_def BatchCreateEvents_call_def)

lemma BatchCreateEvents_nonempty:
  "Events cp \<noteq> [] \<Longrightarrow> BatchCreateEvents CreateEvent cp schedule =
     (if wg (BatchCreateEvents_state CreateEvent cp schedule) \<noteq> 0 then Waiting
      else returned (batch_return (ContinueOnError cp)
                       ''batch create failed: one or more events failed to create''
                       (results (BatchCreateEvents_state CreateEvent cp schedule))))"
  by (simp add: BatchCreateEvents_def BatchCreateEvents_call_def batch_end_returned)

lemma BatchUpdateEvents_empty:
  "Updates up = [] \<Longrightarrow> BatchUpdateEvents UpdateEvent up schedule =
     Return [] (Some (OwnError (ErrInvalidInput ''updates'' ''no updates provided'')))"
  by (simp add: BatchUpdateEvents_def BatchUpdateEvents_call_def)

lemma BatchUpdateEvents_nonempty:
  "Updates up \<noteq> [] \<Longrightarrow> BatchUpdateEvents UpdateEvent up schedule =
     (if wg (BatchUpdateEvents_state UpdateEvent up schedule) \<noteq> 0 then Waiting
      else returned (batch_return (ContinueOnError up)
                       ''batch update failed: one or more events failed to update''
                       (results (BatchUpdateEvents_state UpdateEvent up schedule))))"
  by (simp add: BatchUpdateEvents_def BatchUpdateEvents_call_def batch_end_returned)

lemma BatchDeleteEvents_empty:
  "EventIDs dp = [] \<Longrightarrow> BatchDeleteEvents DeleteEvent dp schedule =
     Return [] (Some (OwnError (ErrInvalidInput ''eventIds'' ''no event IDs provided'')))"
  by (simp add: BatchDeleteEvents_def BatchDeleteEvents_call_def)

lemma BatchDeleteEvents_nonempty:
  "EventIDs dp \<noteq> [] \<Longrightarrow> BatchDeleteEvents DeleteEvent dp schedule =
     (if wg (BatchDeleteEvents_state DeleteEvent dp schedule) \<noteq> 0 then Waiting
      else returned (batch_return (ContinueOnError dp)
                       ''batch delete failed: one or more events failed to delete''
                       (results (BatchDeleteEvents_state DeleteEvent dp schedule))))"
  by (simp add: BatchDeleteEvents_def BatchDeleteEvents_call_def batch_end_returned)

lemma indexed_results_all_Some:
  assumes "indexed_results n entry {..<n} rs"
  shows "\<forall>r \<in> set rs. r \<noteq> None"
  using indexed_results_full[OF assms] by auto

lemma exists_failed:
  "(\<exists>r. Some r \<in> set (map (\<lambda>i. Some (entry i)) order) \<and> \<not> Success r)
     = (\<exists>i \<in> set order. \<not> Success (entry i))"
proof
  assume "\<exists>r. Some r \<in> set (map (\<lambda>i. Some (entry i)) order) \<and> \<not> Success r"
  then obtain r where "Some r \<in> set (map (\<lambda>i. Some (entry i)) order)" "\<not> Success r"
    by blast
  then obtain i where "i \<in> set order" "r = entry i" by auto
  with \<open>\<not> Success r\<close> show "\<exists>i \<in> set order. \<not> Success (entry i)" by blast
next
  assume "\<exists>i \<in> set order. \<not> Success (entry i)"
  then obtain i where i: "i \<in> set order" "\<not> Success (entry i)" by blast
  then have "Some (entry i) \<in> set (map (\<lambda>i. Some (entry i)) order)" by simp
  with i show "\<exists>r. Some r \<in> set (map (\<lambda>i. Some (entry i)) order) \<and> \<not> Success r"
    by blast
qed

lemma Success_create_result [simp]: "Success (create_result i out) = (\<not> isl (returned out))"
  by (cases "returned out") (simp_all add: create_result_def)

lemma Success_update_result [simp]: "Success (update_result ids i out) = (\<not> isl (returned out))"
  by (cases "returned out") (simp_all add: update_result_def)

lemma Success_delete_result [simp]: "Success (delete_result ids i out) = (returned out = None)"
  by (cases "returned out") (simp_all add: delete_result_def)

lemma Index_create_result [simp]: "Index (create_result i out) = i"
  by (cases "returned out") (simp_all add: create_result_def)

lemma Index_delete_result [simp]: "Index (delete_result ids i out) = i"
  by (cases "returned out") (simp_all add: delete_result_def)

lemma EventID_update_result [simp]: "EventID (update_result ids i out) = ids ! i"
  by (cases "returned out") (simp_all add: update_result_def)

lemma EventID_delete_result [simp]: "EventID (delete_result ids i out) = ids ! i"
  by (cases "returned out") (simp_all add: delete_result_def)

lemma entry_of_create_result: "entry_of out (create_result i out)"
  by (cases "returned out") (simp_all add: entry_of_def create_result_def)

lemma entry_of_update_result: "entry_of out (update_result ids i out)"
  by (cases "returned out") (simp_all add: entry_of_def update_result_def)

lemma deleted_entry_of_delete_result: "deleted_entry_of out (delete_result ids i out)"
  by (cases "returned out") (simp_all add: deleted_entry_of_def delete_result_def)

lemma create_outcome:
  assumes "Events cp \<noteq> []"
  shows "BatchCreateEvents CreateEvent cp schedule =
     (if wg (BatchCreateEvents_state CreateEvent cp schedule) \<noteq> 0 then Waiting
      else Return (map (\<lambda>i. Some (create_result i (CreateEvent i (Events cp ! i))))
                     [0..<length (Events cp)])
             (if \<not> ContinueOnError cp
                 \<and> (\<exists>i<length (Events cp). isl (returned (CreateEvent i (Events cp ! i))))
              then Some TheErrAPIError else None))"
proof (cases "wg (BatchCreateEvents_state CreateEvent cp schedule) = 0")
  case False
  then show ?thesis using assms by (simp add: BatchCreateEvents_nonempty)
next
  case True
  let ?st = "BatchCreateEvents_state CreateEvent cp schedule"
  let ?entry = "\<lambda>i. create_result i (CreateEvent i (Events cp ! i))"
  have full: "indexed_results (length (Events cp)) ?entry {..<length (Events cp)} (results ?st)"
    using batch_inv_finished[OF create_inv True] .
  have r: "results ?st = map (\<lambda>i. Some (?entry i)) [0..<length (Events cp)]"
    using full by (rule indexed_results_full)
  have "returned (batch_return (ContinueOnError cp)
          ''batch create failed: one or more events failed to create'' (results ?st)) =
        Return (results ?st)
          (if \<not> ContinueOnError cp \<and> (\<exists>r. Some r \<in> set (results ?st) \<and> \<not> Success r)
           then Some TheErrAPIError else None)"
    using indexed_results_all_Some[OF full] by (rule batch_return_Some)
  moreover have "(\<exists>r. Some r \<in> set (results ?st) \<and> \<not> Success r)
      = (\<exists>i<length (Events cp). isl (returned (CreateEvent i (Events cp ! i))))"
    unfolding r exists_failed by auto
  ultimately show ?thesis
    using True assms r by (simp add: BatchCreateEvents_nonempty)
qed

lemma delete_outcome:
  assumes "EventIDs dp \<noteq> []"
  shows "BatchDeleteEvents DeleteEvent dp schedule =
     (if wg (BatchDeleteEvents_state DeleteEvent dp schedule) \<noteq> 0 then Waiting
      else Return (map (\<lambda>i. Some (delete_result (EventIDs dp) i (DeleteEvent (EventIDs dp ! i))))
                     [0..<length (EventIDs dp)])
             (if \<not> ContinueOnError dp
                 \<and> (\<exists>i<length (EventIDs dp). returned (DeleteEvent (EventIDs dp ! i)) \<noteq> None)
              then Some TheErrAPIError else None))"
proof (cases "wg (BatchDeleteEvents_state DeleteEvent dp schedule) = 0")
  case False
  then show ?thesis using assms by (simp add: BatchDeleteEvents_nonempty)
next
  case True
  let ?st = "BatchDeleteEvents_state DeleteEvent dp schedule"
  let ?entry = "\<lambda>i. delete_result (EventIDs dp) i (DeleteEvent (EventIDs dp ! i))"
  have full: "indexed_results (length (EventIDs dp)) ?entry {..<length (EventIDs dp)} (results ?st)"
    using batch_inv_finished[OF delete_inv True] .
  have r: "results ?st = map (\<lambda>i. Some (?entry i)) [0..<length (EventIDs dp)]"
    using full by (rule indexed_results_full)
  have "returned (batch_return (ContinueOnError dp)
          ''batch delete failed: one or more events failed to delete'' (results ?st)) =
        Return (results ?st)
          (if \<not> ContinueOnError dp \<and> (\<exists>r. Some r \<in> set (results ?st) \<and> \<not> Success r)
           then Some TheErrAPIError else None)"
    using indexed_results_all_Some[OF full] by (rule batch_return_Some)
  moreover have "(\<exists>r. Some r \<in> set (results ?st) \<and> \<not> Success r)
      = (\<exists>i<length (EventIDs dp). returned (DeleteEvent (EventIDs dp ! i)) \<noteq> None)"
    unfolding r exists_failed by auto
  ultimately show ?thesis
    using True assms r by (simp add: BatchDeleteEvents_nonempty)
qed

lemma update_outcome:
  assumes "Updates up \<noteq> []"
    and "wg (BatchUpdateEvents_state UpdateEvent up schedule) = 0"
  shows "\<exists>order. distinct order \<and> set order = {..<length (Updates up)} \<and>
     BatchUpdateEvents UpdateEvent up schedule =
       Return (map (\<lambda>i. Some (update_result (map fst (Updates up)) i
                                 (UpdateEvent (fst (Updates up ! i)) (snd (Updates up ! i)))))
                 order)
         (if \<not> ContinueOnError up
             \<and> (\<exists>i<length (Updates up).
                   isl (returned (UpdateEvent (fst (Updates up ! i)) (snd (Updates up ! i)))))
          then Some TheErrAPIError else None)"
proof -
  let ?st = "BatchUpdateEvents_state UpdateEvent up schedule"
  let ?entry = "\<lambda>i. update_result (map fst (Updates up)) i
                        (UpdateEvent (fst (Updates up ! i)) (snd (Updates up ! i)))"
  have "appended_results ?entry {..<length (Updates up)} (results ?st)"
    using batch_inv_finished[OF update_inv assms(2)] .
  then obtain order where o: "distinct order" "set order = {..<length (Updates up)}"
      and r: "results ?st = map (\<lambda>i. Some (?entry i)) order"
    by (auto simp: appended_results_def)
  have "\<forall>r \<in> set (results ?st). r \<noteq> None" unfolding r by auto
  then have "returned (batch_return (ContinueOnError up)
          ''batch update failed: one or more events failed to update'' (results ?st)) =
        Return (results ?st)
          (if \<not> ContinueOnError up \<and> (\<exists>r. Some r \<in> set (results ?st) \<and> \<not> Success r)
           then Some TheErrAPIError else None)"
    by (rule batch_return_Some)
  moreover have "(\<exists>r. Some r \<in> set (results ?st) \<and> \<not> Success r)
      = (\<exists>i<length (Updates up).
            isl (returned (UpdateEvent (fst (Updates up ! i)) (snd (Updates up ! i)))))"
    unfolding r exists_failed using o(2) by auto
  ultimately have "BatchUpdateEvents UpdateEvent up schedule =
       Return (map (\<lambda>i. Some (?entry i)) order)
         (if \<not> ContinueOnError up
             \<and> (\<exists>i<length (Updates up).
                   isl (returned (UpdateEvent (fst (Updates up ! i)) (snd (Updates up ! i)))))
          then Some TheErrAPIError else None)"
    using assms r by (simp add: BatchUpdateEvents_nonempty)
  with o show ?thesis by blast
qed

lemma create_completes:
  "is_Return (BatchCreateEvents CreateEvent cp (sequential_schedule (length (Events cp))))"
proof (cases "Events cp = []")
  case True
  then show ?thesis by (simp add: BatchCreateEvents_empty)
next
  case False
  have "wg (BatchCreateEvents_state CreateEvent cp (sequential_schedule (length (Events cp)))) = 0"
    unfolding BatchCreateEvents_state_def
    using semaphore_capacity_pos by (rule sequential_completes)
  then show ?thesis using create_outcome[OF False, of CreateEvent] by simp
qed

lemma delete_completes:
  "is_Return (BatchDeleteEvents DeleteEvent dp (sequential_schedule (length (EventIDs dp))))"
proof (cases "EventIDs dp = []")
  case True
  then show ?thesis by (simp add: BatchDeleteEvents_empty)
next
  case False
  have "wg (BatchDeleteEvents_state DeleteEvent dp (sequential_schedule (length (EventIDs dp)))) = 0"
    unfolding BatchDeleteEvents_state_def
    using semaphore_capacity_pos by (rule sequential_completes)
  then show ?thesis using delete_outcome[OF False, of DeleteEvent] by simp
qed

lemma update_completes:
  "is_Return (BatchUpdateEvents UpdateEvent up (sequential_schedule (length (Updates up))))"
proof (cases "Updates up = []")
  case True
  then show ?thesis by (simp add: BatchUpdateEvents_empty)
next
  case False
  have "wg (BatchUpdateEvents_state UpdateEvent up (sequential_schedule (length (Updates up)))) = 0"
    unfolding BatchUpdateEvents_state_def
    using semaphore_capacity_pos by (rule sequential_completes)
  from update_outcome[OF False this] obtain rs err where
    "BatchUpdateEvents UpdateEvent up (sequential_schedule (length (Updates up))) = Return rs err"
    by blast
  then show ?thesis by simp
qed

lemma create_can_complete:
  "\<exists>rest. is_Return (BatchCreateEvents CreateEvent cp (schedule @ rest))"
proof (cases "Events cp = []")
  case True
  then show ?thesis by (simp add: BatchCreateEvents_empty)
next
  case False
  let ?cap = "semaphore_capacity (MaxConcurrent cp)"
  let ?op = "\<lambda>i. CreateEvent i (Events cp ! i)"
  let ?I = "indexed_results (length (Events cp)) (\<lambda>i. create_result i (CreateEvent i (Events cp ! i)))"
  have "\<exists>rest. wg (batch_run ?cap ?op create_store rest
                    (BatchCreateEvents_state CreateEvent cp schedule)) = 0"
  proof (rule can_finish[where n = "length (Events cp)" and I = ?I])
    show "0 < ?cap" by (rule semaphore_capacity_pos)
    show "batch_inv (length (Events cp)) ?cap ?op ?I (BatchCreateEvents_state CreateEvent cp schedule)"
      by (rule create_inv)
  qed (auto simp: create_store_def indexed_results_def nth_list_update)
  then obtain rest where
    "wg (BatchCreateEvents_state CreateEvent cp (schedule @ rest)) = 0"
    by (auto simp: BatchCreateEvents_state_def batch_run_append)
  then have "is_Return (BatchCreateEvents CreateEvent cp (schedule @ rest))"
    using create_outcome[OF False, of CreateEvent "schedule @ rest"] by simp
  then show ?thesis by blast
qed

lemma delete_can_complete:
  "\<exists>rest. is_Return (BatchDeleteEvents DeleteEvent dp (schedule @ rest))"
proof (cases "EventIDs dp = []")
  case True
  then show ?thesis by (simp add: BatchDeleteEvents_empty)
next
  case False
  let ?cap = "semaphore_capacity (MaxConcurrent dp)"
  let ?op = "\<lambda>i. DeleteEvent (EventIDs dp ! i)"
  let ?I = "indexed_results (length (EventIDs dp))
              (\<lambda>i. delete_result (EventIDs dp) i (DeleteEvent (EventIDs dp ! i)))"
  have "\<exists>rest. wg (batch_run ?cap ?op (delete_store (EventIDs dp)) rest
                    (BatchDeleteEvents_state DeleteEvent dp schedule)) = 0"
  proof (rule can_finish[where n = "length (EventIDs dp)" and I = ?I])
    show "0 < ?cap" by (rule semaphore_capacity_pos)
    show "batch_inv (length (EventIDs dp)) ?cap ?op ?I (BatchDeleteEvents_state DeleteEvent dp schedule)"
      by (rule delete_inv)
  qed (auto simp: delete_store_def indexed_results_def nth_list_update)
  then obtain rest where
    "wg (BatchDeleteEvents_state DeleteEvent dp (schedule @ rest)) = 0"
    by (auto simp: BatchDeleteEvents_state_def batch_run_append)
  then have "is_Return (BatchDeleteEvents DeleteEvent dp (schedule @ rest))"
    using delete_outcome[OF False, of DeleteEvent "schedule @ rest"] by simp
  then show ?thesis by blast
qed

lemma update_can_complete:
  "\<exists>rest. is_Return (BatchUpdateEvents UpdateEvent up (schedule @ rest))"
proof (cases "Updates up = []")
  case True
  then show ?thesis by (simp add: BatchUpdateEvents_empty)
next
  case False
  let ?cap = "semaphore_capacity (MaxConcurrent up)"
  let ?op = "\<lambda>i. UpdateEvent (fst (Updates up ! i)) (snd (Updates up ! i))"
  let ?entry = "\<lambda>i. update_result (map fst (Updates up)) i
               (UpdateEvent (fst (Updates up ! i)) (snd (Updates up ! i)))"
  have "\<exists>rest. wg (batch_run ?cap ?op (update_store (map fst (Updates up))) rest
                    (BatchUpdateEvents_state UpdateEvent up schedule)) = 0"
  proof (rule can_finish[where n = "length (Updates up)" and I = "appended_results ?entry"])
    show "0 < ?cap" by (rule semaphore_capacity_pos)
    show "batch_inv (length (Updates up)) ?cap ?op (appended_results ?entry)
            (BatchUpdateEvents_state UpdateEvent up schedule)"
      by (rule update_inv)
    fix S i r
    assume "i \<notin> S" "appended_results ?entry S r"
    then have "appended_results ?entry (insert i S) (r @ [Some (?entry i)])"
      by (rule appended_step)
    then show "appended_results ?entry (insert i S)
        (returned (update_store (map fst (Updates up)) i
           (UpdateEvent (fst (Updates up ! i)) (snd (Updates up ! i))) r))"
      by (simp add: update_store_def)
  qed
  then obtain rest where
    w: "wg (BatchUpdateEvents_state UpdateEvent up (schedule @ rest)) = 0"
    by (auto simp: BatchUpdateEvents_state_def batch_run_append)
  from update_outcome[OF False w] obtain rs err where
    "BatchUpdateEvents UpdateEvent up (schedule @ rest) = Return rs err"
    by blast
  then have "is_Return (BatchUpdateEvents UpdateEvent up (schedule @ rest))" by simp
  then show ?thesis by blast
qed

lemma create_by_index:
  assumes a: "BatchCreateEvents CreateEvent cp schedule = Return rs err"
  shows "length rs = length (Events cp)
       \<and> (\<forall>i<length (Events cp). \<exists>r. rs ! i = Some r \<and> Index r = i)"
proof (cases "Events cp = []")
  case True
  then show ?thesis using a by (simp add: BatchCreateEvents_empty)
next
  case False
  have "rs = map (\<lambda>i. Some (create_result i (CreateEvent i (Events cp ! i))))
               [0..<length (Events cp)]"
    using a create_outcome[OF False, of CreateEvent schedule] by (simp split: if_splits)
  then show ?thesis by simp
qed

lemma delete_by_index:
  assumes a: "BatchDeleteEvents DeleteEvent dp schedule = Return rs err"
  shows "length rs = length (EventIDs dp)
       \<and> (\<forall>i<length (EventIDs dp). \<exists>r. rs ! i = Some r \<and> Index r = i)"
proof (cases "EventIDs dp = []")
  case True
  then show ?thesis using a by (simp add: BatchDeleteEvents_empty)
next
  case False
  have "rs = map (\<lambda>i. Some (delete_result (EventIDs dp) i (DeleteEvent (EventIDs dp ! i))))
               [0..<length (EventIDs dp)]"
    using a delete_outcome[OF False, of DeleteEvent schedule] by (simp split: if_splits)
  then show ?thesis by simp
qed

lemma update_returned:
  assumes "Updates up \<noteq> []" "BatchUpdateEvents UpdateEvent up schedule = Return rs err"
  shows "(\<exists>order. distinct order \<and> set order = {..<length (Updates up)}
            \<and> rs = map (\<lambda>i. Some (update_result (map fst (Updates up)) i
                                     (UpdateEvent (fst (Updates up ! i)) (snd (Updates up ! i)))))
                     order)
       \<and> err = (if \<not> ContinueOnError up
                    \<and> (\<exists>i<length (Updates up).
                          isl (returned (UpdateEvent (fst (Updates up ! i)) (snd (Updates up ! i)))))
                 then Some TheErrAPIError else None)"
proof -
  have w: "wg (BatchUpdateEvents_state UpdateEvent up schedule) = 0"
  proof (rule ccontr)
    assume "wg (BatchUpdateEvents_state UpdateEvent up schedule) \<noteq> 0"
    then have "BatchUpdateEvents UpdateEvent up schedule = Waiting"
      using assms(1) by (simp add: BatchUpdateEvents_nonempty)
    with assms(2) show False by simp
  qed
  from update_outcome[OF assms(1) w] obtain order where
    o: "distinct order" "set order = {..<length (Updates up)}"
    and r: "BatchUpdateEvents UpdateEvent up schedule =
       Return (map (\<lambda>i. Some (update_result (map fst (Updates up)) i
                                 (UpdateEvent (fst (Updates up ! i)) (snd (Updates up ! i)))))
                 order)
         (if \<not> ContinueOnError up
             \<and> (\<exists>i<length (Updates up).
                   isl (returned (UpdateEvent (fst (Updates up ! i)) (snd (Updates up ! i)))))
          then Some TheErrAPIError else None)"
    by blast
  from r assms(2) have
    "rs = map (\<lambda>i. Some (update_result (map fst (Updates up)) i
                                 (UpdateEvent (fst (Updates up ! i)) (snd (Updates up ! i)))))
                 order"
    and "err = (if \<not> ContinueOnError up
                    \<and> (\<exists>i<length (Updates up).
                          isl (returned (UpdateEvent (fst (Updates up ! i)) (snd (Updates up ! i)))))
                 then Some TheErrAPIError else None)"
    by simp_all
  with o show ?thesis by blast
qed

lemma update_by_order:
  assumes a: "BatchUpdateEvents UpdateEvent up schedule = Return rs err"
  shows "length rs = length (Updates up)
       \<and> (\<exists>order. distinct order \<and> set order = {..<length (Updates up)}
             \<and> (\<forall>k<length rs. \<exists>r. rs ! k = Some r \<and> Index r = order ! k))"
proof (cases "Updates up = []")
  case True
  then have "rs = []" using a by (simp add: BatchUpdateEvents_empty)
  moreover have "distinct ([]::nat list) \<and> set ([]::nat list) = {..<length (Updates up)}"
    using True by simp
  ultimately show ?thesis using True by auto
next
  case False
  from update_returned[OF False a] obtain order where
    o: "distinct order" "set order = {..<length (Updates up)}"
    and r: "rs = map (\<lambda>i. Some (update_result (map fst (Updates up)) i
                                 (UpdateEvent (fst (Updates up ! i)) (snd (Updates up ! i)))))
                 order"
    by blast
  have "length order = card (set order)" using o(1) by (simp add: distinct_card)
  then have len: "length rs = length (Updates up)" using o(2) r by simp
  have "\<forall>k<length rs. \<exists>r. rs ! k = Some r \<and> Index r = order ! k"
    unfolding r by simp
  with o len show ?thesis by blast
qed

subsection \<open>Listing several calendars\<close>

lemma list_step_inv:
  assumes inv: "list_inv (length calendarIDs)
      (list_call svc calendarIDs timeMin timeMax maxResults) st"
  shows "list_inv (length calendarIDs)
      (list_call svc calendarIDs timeMin timeMax maxResults)
      (list_step svc calendarIDs timeMin timeMax maxResults st i)"
proof (cases "i < length (lpcs st)")
  case False
  then show ?thesis using inv by (simp add: list_step_def)
next
  case True
  note i = True
  let ?call = "list_call svc calendarIDs timeMin timeMax maxResults"
  let ?n = "length calendarIDs"
  from inv have len: "length (lpcs st) = ?n" "length (listed st) = ?n"
    and wgc: "lwg st = length (filter (\<lambda>p. p \<noteq> ListEnded) (lpcs st))"
    and out: "\<forall>i<?n. lpcs st ! i = ListAtCollect \<longrightarrow> listed st ! i = Some (?call i)"
    and err: "(errorsChan st \<noteq> []) = (\<exists>i<?n. lpcs st ! i = ListEnded \<and> isl (?call i))"
    by (simp_all add: list_inv_def)
  show ?thesis
  proof (cases "lpcs st ! i")
    case ListAtCall
    have c: "length (filter (\<lambda>p. p \<noteq> ListEnded) ((lpcs st)[i := ListAtCollect]))
               = length (filter (\<lambda>p. p \<noteq> ListEnded) (lpcs st))"
      using count_update[OF i, of "\<lambda>p. p \<noteq> ListEnded" ListAtCollect] ListAtCall by simp
    have e: "(\<exists>j<?n. (lpcs st)[i := ListAtCollect] ! j = ListEnded \<and> isl (?call j))
           = (\<exists>j<?n. lpcs st ! j = ListEnded \<and> isl (?call j))"
    proof -
      have "\<And>j. ((lpcs st)[i := ListAtCollect] ! j = ListEnded) = (lpcs st ! j = ListEnded)"
        using i ListAtCall by (auto simp: nth_list_update)
      then show ?thesis by simp
    qed
    show ?thesis
      using i ListAtCall len wgc out err c e
      by (simp add: list_step_def list_inv_def nth_list_update)
  next
    case ListAtCollect
    then have o: "listed st ! i = Some (?call i)" using out i len by simp
    have c: "Suc (length (filter (\<lambda>p. p \<noteq> ListEnded) ((lpcs st)[i := ListEnded])))
               = length (filter (\<lambda>p. p \<noteq> ListEnded) (lpcs st))"
      using count_update[OF i, of "\<lambda>p. p \<noteq> ListEnded" ListEnded] ListAtCollect by simp
    have e: "(\<exists>j<?n. (lpcs st)[i := ListEnded] ! j = ListEnded \<and> isl (?call j))
           = (isl (?call i) \<or> (\<exists>j<?n. lpcs st ! j = ListEnded \<and> isl (?call j)))"
    proof -
      have "\<And>j. ((lpcs st)[i := ListEnded] ! j = ListEnded) = (j = i \<or> lpcs st ! j = ListEnded)"
        using i ListAtCollect by (auto simp: nth_list_update)
      then show ?thesis using i len by auto
    qed
    show ?thesis
    proof (cases "?call i")
      case (Inl a)
      then show ?thesis
        using i ListAtCollect len wgc out err c e o
        by (simp add: list_step_def list_inv_def nth_list_update)
    next
      case (Inr b)
      then show ?thesis
        using i ListAtCollect len wgc out err c e o
        by (simp add: list_step_def list_inv_def nth_list_update)
    qed
  next
    case ListEnded
    then show ?thesis using inv i by (simp add: list_step_def)
  qed
qed

lemma list_run_inv:
  "list_inv (length calendarIDs)
      (list_call svc calendarIDs timeMin timeMax maxResults)
      (ListEventsMultiCalendar_state svc calendarIDs timeMin timeMax maxResults schedule)"
proof -
  have "list_inv (length calendarIDs)
      (list_call svc calendarIDs timeMin timeMax maxResults) st \<Longrightarrow>
    list_inv (length calendarIDs)
      (list_call svc calendarIDs timeMin timeMax maxResults)
      (foldl (list_step svc calendarIDs timeMin timeMax maxResults) st schedule)" for st
    by (induction schedule arbitrary: st) (simp_all add: list_step_inv)
  moreover have "list_inv (length calendarIDs)
      (list_call svc calendarIDs timeMin timeMax maxResults)
       \<lparr>lpcs = replicate (length calendarIDs) ListAtCall,
        listed = replicate (length calendarIDs) None,
        errorsChan = [],
        listResult = \<lparr>mclEvents = [], TotalCount = 0, ByCalendar = Map.empty\<rparr>,
        lwg = length calendarIDs\<rparr>"
    by (auto simp: list_inv_def)
  ultimately show ?thesis by (simp add: ListEventsMultiCalendar_state_def)
qed

lemma ListEventsMultiCalendar_unfold:
  assumes "Service c = Some svc" "calendarIDs \<noteq> []"
  shows "ListEventsMultiCalendar c calendarIDs timeMin timeMax maxResults schedule =
     (let st = ListEventsMultiCalendar_state svc calendarIDs timeMin timeMax maxResults schedule
      in if lwg st \<noteq> 0 then Waiting
         else (case errorsChan st of
                 err # rest \<Rightarrow> Return None (Some TheErrAPIError)
               | [] \<Rightarrow>
                   Return (Some ((listResult st)
                                   \<lparr>mclEvents := sortMultiCalendarEvents (mclEvents (listResult st)),
                                    TotalCount := length (mclEvents (listResult st))\<rparr>))
                     None))"
  using assms
  by (simp add: ListEventsMultiCalendar_def ListEventsMultiCalendar_call_def Let_def
           split: list.split)

lemma list_outcome:
  assumes "Service c = Some svc" "calendarIDs \<noteq> []"
    and "ListEventsMultiCalendar c calendarIDs timeMin timeMax maxResults schedule = Return r err"
  shows "if \<exists>i<length calendarIDs.
              isl (list_call svc calendarIDs timeMin timeMax maxResults i)
         then r = None \<and> err = Some TheErrAPIError
         else r \<noteq> None \<and> err = None"
proof -
  let ?st = "ListEventsMultiCalendar_state svc calendarIDs timeMin timeMax maxResults schedule"
  let ?call = "list_call svc calendarIDs timeMin timeMax maxResults"
  have inv: "list_inv (length calendarIDs) ?call ?st" by (rule list_run_inv)
  note u = ListEventsMultiCalendar_unfold[OF assms(1,2), of timeMin timeMax maxResults schedule]
  from assms(3) have w: "lwg ?st = 0"
    unfolding u by (auto simp: Let_def split: if_splits)
  then have "filter (\<lambda>p. p \<noteq> ListEnded) (lpcs ?st) = []" using inv by (simp add: list_inv_def)
  then have "\<forall>p \<in> set (lpcs ?st). p = ListEnded" by (simp add: filter_empty_conv)
  then have "\<forall>i<length calendarIDs. lpcs ?st ! i = ListEnded"
    using inv by (simp add: list_inv_def)
  then have e: "(errorsChan ?st \<noteq> []) = (\<exists>i<length calendarIDs. isl (?call i))"
    using inv unfolding list_inv_def by blast
  show ?thesis
  proof (cases "errorsChan ?st")
    case Nil
    then show ?thesis using assms(3) w e unfolding u
      by (auto simp: Let_def)
  next
    case (Cons a list)
    then show ?thesis using assms(3) w e unfolding u
      by (auto simp: Let_def)
  qed
qed

lemma list_remaining_update:
  assumes "i < length (lpcs st)" "list_steps_left p < list_steps_left (lpcs st ! i)"
  shows "sum_list (map list_steps_left ((lpcs st)[i := p]))
           < sum_list (map list_steps_left (lpcs st))"
proof -
  let ?xs = "map list_steps_left (lpcs st)"
  have i: "i < length ?xs" using assms(1) by simp
  have "?xs ! i \<le> sum_list ?xs"
    using i by (rule elem_le_sum_list)
  moreover have "sum_list (?xs[i := list_steps_left p]) = sum_list ?xs + list_steps_left p - ?xs ! i"
    using i by (rule sum_list_update)
  moreover have "list_steps_left p < ?xs ! i" using assms by simp
  ultimately have "sum_list (?xs[i := list_steps_left p]) < sum_list ?xs" by linarith
  then show ?thesis by (simp add: map_update)
qed

lemma some_listing_moves:
  assumes inv: "list_inv (length calendarIDs)
      (list_call svc calendarIDs timeMin timeMax maxResults) st"
    and open_: "lwg st \<noteq> 0"
  shows "\<exists>i. list_remaining (list_step svc calendarIDs timeMin timeMax maxResults st i)
               < list_remaining st"
proof -
  let ?call = "list_call svc calendarIDs timeMin timeMax maxResults"
  let ?n = "length calendarIDs"
  from inv have len: "length (lpcs st) = ?n"
    and wgc: "lwg st = length (filter (\<lambda>p. p \<noteq> ListEnded) (lpcs st))"
    and out: "\<forall>i<?n. lpcs st ! i = ListAtCollect \<longrightarrow> listed st ! i = Some (?call i)"
    by (simp_all add: list_inv_def)
  from open_ wgc have "filter (\<lambda>p. p \<noteq> ListEnded) (lpcs st) \<noteq> []" by auto
  then obtain p where "p \<in> set (lpcs st)" "p \<noteq> ListEnded" by (auto simp: filter_empty_conv)
  then obtain j where j: "j < length (lpcs st)" "lpcs st ! j \<noteq> ListEnded"
    by (auto simp: in_set_conv_nth)
  have "list_remaining (list_step svc calendarIDs timeMin timeMax maxResults st j)
          < list_remaining st"
  proof (cases "lpcs st ! j")
    case ListAtCall
    then show ?thesis
      using j list_remaining_update[OF j(1), of ListAtCollect]
      by (simp add: list_step_def list_remaining_def)
  next
    case ListAtCollect
    then have o: "listed st ! j = Some (?call j)" using out j len by simp
    show ?thesis
    proof (cases "?call j")
      case (Inl a)
      then show ?thesis
        using j ListAtCollect o list_remaining_update[OF j(1), of ListEnded]
        by (simp add: list_step_def list_remaining_def)
    next
      case (Inr b)
      then show ?thesis
        using j ListAtCollect o list_remaining_update[OF j(1), of ListEnded]
        by (simp add: list_step_def list_remaining_def)
    qed
  next
    case ListEnded
    then show ?thesis using j by simp
  qed
  then show ?thesis by blast
qed

lemma listing_can_finish:
  "list_inv (length calendarIDs) (list_call svc calendarIDs timeMin timeMax maxResults) st \<Longrightarrow>
   \<exists>rest. lwg (foldl (list_step svc calendarIDs timeMin timeMax maxResults) st rest) = 0"
proof (induction "list_remaining st" arbitrary: st rule: less_induct)
  case less
  show ?case
  proof (cases "lwg st = 0")
    case True
    then have "lwg (foldl (list_step svc calendarIDs timeMin timeMax maxResults) st []) = 0"
      by simp
    then show ?thesis by blast
  next
    case False
    from some_listing_moves[OF less.prems False] obtain i where
      i: "list_remaining (list_step svc calendarIDs timeMin timeMax maxResults st i)
            < list_remaining st"
      by blast
    have "list_inv (length calendarIDs) (list_call svc calendarIDs timeMin timeMax maxResults)
            (list_step svc calendarIDs timeMin timeMax maxResults st i)"
      using less.prems by (rule list_step_inv)
    from less.hyps[OF i this] obtain rest where
      "lwg (foldl (list_step svc calendarIDs timeMin timeMax maxResults)
              (list_step svc calendarIDs timeMin timeMax maxResults st i) rest) = 0"
      by blast
    then have "lwg (foldl (list_step svc calendarIDs timeMin timeMax maxResults) st (i # rest)) = 0"
      by simp
    then show ?thesis by blast
  qed
qed

lemma list_can_complete:
  "\<exists>rest. is_Return
     (ListEventsMultiCalendar c calendarIDs timeMin timeMax maxResults (schedule @ rest))"
proof (cases "Service c")
  case None
  then show ?thesis
    by (simp add: ListEventsMultiCalendar_def ListEventsMultiCalendar_call_def)
next
  case (Some svc)
  show ?thesis
  proof (cases "calendarIDs = []")
    case True
    then show ?thesis using Some
      by (simp add: ListEventsMultiCalendar_def ListEventsMultiCalendar_call_def)
  next
    case False
    have "\<exists>rest. lwg (foldl (list_step svc calendarIDs timeMin timeMax maxResults)
              (ListEventsMultiCalendar_state svc calendarIDs timeMin timeMax maxResults schedule)
              rest) = 0"
      using list_run_inv by (rule listing_can_finish)
    then obtain rest where
      w: "lwg (ListEventsMultiCalendar_state svc calendarIDs timeMin timeMax maxResults
                 (schedule @ rest)) = 0"
      by (auto simp: ListEventsMultiCalendar_state_def)
    have "is_Return
      (ListEventsMultiCalendar c calendarIDs timeMin timeMax maxResults (schedule @ rest))"
      unfolding ListEventsMultiCalendar_unfold[OF Some False]
      using w by (simp add: Let_def split: list.split)
    then show ?thesis by blast
  qed
qed

subsection \<open>Failures of single items\<close>

lemma create_never_panics: "\<not> is_Panic (BatchCreateEvents CreateEvent cp schedule)"
proof (cases "Events cp = []")
  case True
  then show ?thesis by (simp add: BatchCreateEvents_empty)
next
  case False
  show ?thesis using create_outcome[OF False, of CreateEvent schedule] by simp
qed

lemma delete_never_panics: "\<not> is_Panic (BatchDeleteEvents DeleteEvent dp schedule)"
proof (cases "EventIDs dp = []")
  case True
  then show ?thesis by (simp add: BatchDeleteEvents_empty)
next
  case False
  show ?thesis using delete_outcome[OF False, of DeleteEvent schedule] by simp
qed

lemma update_never_panics: "\<not> is_Panic (BatchUpdateEvents UpdateEvent up schedule)"
proof (cases "Updates up = []")
  case True
  then show ?thesis by (simp add: BatchUpdateEvents_empty)
next
  case False
  show ?thesis
  proof (cases "wg (BatchUpdateEvents_state UpdateEvent up schedule) = 0")
    case True
    from update_outcome[OF False True] obtain rs err where
      "BatchUpdateEvents UpdateEvent up schedule = Return rs err" by blast
    then show ?thesis by simp
  next
    case nz: False
    then show ?thesis using False by (simp add: BatchUpdateEvents_nonempty)
  qed
qed

lemma create_entries:
  assumes "Events cp \<noteq> []" "BatchCreateEvents CreateEvent cp schedule = Return rs err"
  shows "length rs = length (Events cp)
       \<and> (\<forall>i<length (Events cp).
             \<exists>r. rs ! i = Some r \<and> Index r = i \<and> entry_of (CreateEvent i (Events cp ! i)) r)
       \<and> err = (if \<not> ContinueOnError cp
                    \<and> (\<exists>i<length (Events cp). isl (returned (CreateEvent i (Events cp ! i))))
                 then Some TheErrAPIError else None)"
proof -
  have r: "rs = map (\<lambda>i. Some (create_result i (CreateEvent i (Events cp ! i))))
                  [0..<length (Events cp)]"
    and e: "err = (if \<not> ContinueOnError cp
                    \<and> (\<exists>i<length (Events cp). isl (returned (CreateEvent i (Events cp ! i))))
                 then Some TheErrAPIError else None)"
    using assms(2) create_outcome[OF assms(1), of CreateEvent schedule]
    by (auto split: if_splits)
  have "\<forall>i<length (Events cp).
             \<exists>r. rs ! i = Some r \<and> Index r = i \<and> entry_of (CreateEvent i (Events cp ! i)) r"
    unfolding r by (simp add: entry_of_create_result)
  moreover have "length rs = length (Events cp)" unfolding r by simp
  ultimately show ?thesis using e by blast
qed

lemma delete_entries:
  assumes "EventIDs dp \<noteq> []" "BatchDeleteEvents DeleteEvent dp schedule = Return rs err"
  shows "length rs = length (EventIDs dp)
       \<and> (\<forall>i<length (EventIDs dp).
             \<exists>r. rs ! i = Some r \<and> Index r = i \<and> EventID r = EventIDs dp ! i
                  \<and> deleted_entry_of (DeleteEvent (EventIDs dp ! i)) r)
       \<and> err = (if \<not> ContinueOnError dp
                    \<and> (\<exists>i<length (EventIDs dp). returned (DeleteEvent (EventIDs dp ! i)) \<noteq> None)
                 then Some TheErrAPIError else None)"
proof -
  have r: "rs = map (\<lambda>i. Some (delete_result (EventIDs dp) i (DeleteEvent (EventIDs dp ! i))))
                  [0..<length (EventIDs dp)]"
    and e: "err = (if \<not> ContinueOnError dp
                    \<and> (\<exists>i<length (EventIDs dp). returned (DeleteEvent (EventIDs dp ! i)) \<noteq> None)
                 then Some TheErrAPIError else None)"
    using assms(2) delete_outcome[OF assms(1), of DeleteEvent schedule]
    by (auto split: if_splits)
  have "\<forall>i<length (EventIDs dp).
             \<exists>r. rs ! i = Some r \<and> Index r = i \<and> EventID r = EventIDs dp ! i
                  \<and> deleted_entry_of (DeleteEvent (EventIDs dp ! i)) r"
    unfolding r by (simp add: deleted_entry_of_delete_result)
  moreover have "length rs = length (EventIDs dp)" unfolding r by simp
  ultimately show ?thesis using e by blast
qed

lemma update_entries:
  assumes "Updates up \<noteq> []" "BatchUpdateEvents UpdateEvent up schedule = Return rs err"
  shows "length rs = length (Updates up)
       \<and> (\<exists>order. distinct order \<and> set order = {..<length (Updates up)}
            \<and> (\<forall>k<length rs.
                  \<exists>r. rs ! k = Some r \<and> Index r = order ! k
                       \<and> EventID r = fst (Updates up ! (order ! k))
                       \<and> entry_of (UpdateEvent (fst (Updates up ! (order ! k)))
                                                (snd (Updates up ! (order ! k)))) r))
       \<and> err = (if \<not> ContinueOnError up
                    \<and> (\<exists>i<length (Updates up).
                          isl (returned (UpdateEvent (fst (Updates up ! i)) (snd (Updates up ! i)))))
                 then Some TheErrAPIError else None)"
proof -
  from update_returned[OF assms] obtain order where
    o: "distinct order" "set order = {..<length (Updates up)}"
    and r: "rs = map (\<lambda>i. Some (update_result (map fst (Updates up)) i
                                 (UpdateEvent (fst (Updates up ! i)) (snd (Updates up ! i)))))
                 order"
    and e: "err = (if \<not> ContinueOnError up
                    \<and> (\<exists>i<length (Updates up).
                          isl (returned (UpdateEvent (fst (Updates up ! i)) (snd (Updates up ! i)))))
                 then Some TheErrAPIError else None)"
    by blast
  have "length order = card (set order)" using o(1) by (simp add: distinct_card)
  then have len: "length rs = length (Updates up)" using o(2) r by simp
  have in_range: "\<forall>k<length order. order ! k < length (Updates up)"
    using o(2) nth_mem by blast
  have "\<forall>k<length rs.
          \<exists>r. rs ! k = Some r \<and> Index r = order ! k
               \<and> EventID r = fst (Updates up ! (order ! k))
               \<and> entry_of (UpdateEvent (fst (Updates up ! (order ! k)))
                                        (snd (Updates up ! (order ! k)))) r"
    unfolding r using in_range by (simp add: entry_of_update_result)
  with o len e show ?thesis by blast
qed

lemma is_ReturnE:
  assumes "is_Return x"
  obtains r err where "x = Return r err"
  using assms by (cases x) auto

lemma indexes_in_position:
  assumes "length rs = n \<and> (\<forall>i<n. \<exists>r. rs ! i = Some r \<and> Index r = i)"
  shows "map (map_option Index) rs = map Some [0..<n]"
proof (rule nth_equalityI)
  show "length (map (map_option Index) rs) = length (map Some [0..<n])"
    using assms by simp
next
  fix i assume "i < length (map (map_option Index) rs)"
  then have i: "i < n" using assms by simp
  then obtain r where "rs ! i = Some r" "Index r = i" using assms by blast
  then show "map (map_option Index) rs ! i = map Some [0..<n] ! i"
    using i assms by simp
qed

lemma entry_of_Success: "entry_of out r \<Longrightarrow> Success r = (\<not> isl (returned out))"
  by (cases "returned out") (simp_all add: entry_of_def)

lemma successes_in_position:
  assumes "length rs = n \<and> (\<forall>i<n. \<exists>r. rs ! i = Some r \<and> Index r = i \<and> entry_of (out i) r)"
  shows "map (map_option Success) rs = map (\<lambda>i. Some (\<not> isl (returned (out i)))) [0..<n]"
proof (rule nth_equalityI)
  show "length (map (map_option Success) rs)
          = length (map (\<lambda>i. Some (\<not> isl (returned (out i)))) [0..<n])"
    using assms by simp
next
  fix i assume "i < length (map (map_option Success) rs)"
  then have i: "i < n" using assms by simp
  then obtain r where "rs ! i = Some r" "entry_of (out i) r" using assms by blast
  then show "map (map_option Success) rs ! i
               = map (\<lambda>i. Some (\<not> isl (returned (out i)))) [0..<n] ! i"
    using i assms by (simp add: entry_of_Success)
qed

subsection \<open>The shared error object\<close>

text \<open>
  Five events created two at a time and without \<open>ContinueOnError\<close>, of which the
  service refuses the second (not found) and the fourth (forbidden): the two failed
  entries and the error of the call are references to the one \<open>ErrAPIError\<close>, whose
  details are, once the call has returned, those of the batch, and which wraps itself.
\<close>

lemma refused_entries_share_ErrAPIError:
  "is_Return (BatchCreateEvents refused_CreateEvent strict_create_params contended_schedule)
   \<and> map (map_option Error)
        (returned_value
           (BatchCreateEvents refused_CreateEvent strict_create_params contended_schedule))
      = [Some None, Some (Some TheErrAPIError), Some None, Some (Some TheErrAPIError), Some None]
   \<and> returned_error
        (BatchCreateEvents refused_CreateEvent strict_create_params contended_schedule)
      = Some TheErrAPIError
   \<and> apply_writes initial_ErrAPIError
        (written (BatchCreateEvents_call refused_CreateEvent strict_create_params
                    contended_schedule))
      = \<lparr>sharedDetails = ''batch create failed: one or more events failed to create'',
         sharedWrapped = Some TheErrAPIError\<rparr>"
  by code_simp

subsection \<open>The concurrency bound\<close>




subsection \<open>Positions and indexes of the results\<close>

text \<open>
  Claim C4. Whenever a bulk operation returns, under any schedule of its goroutines, it returns
  as many results as there were items. For batch create and batch delete the result at position
  \<open>i\<close> has \<open>Index\<close> equal to \<open>i\<close>. Batch update appends each result when its goroutine
  completes: the \<open>Index\<close> fields of its results are the item numbers \<open>0..N-1\<close>, each once, in
  the order of completion.
\<close>

theorem batch_results_by_index:
  "(\<forall>rs err. BatchCreateEvents CreateEvent cp schedule = Return rs err \<longrightarrow>
       length rs = length (Events cp)
       \<and> (\<forall>i<length (Events cp). \<exists>r. rs ! i = Some r \<and> Index r = i))
   \<and> (\<forall>rs err. BatchDeleteEvents DeleteEvent dp schedule = Return rs err \<longrightarrow>
       length rs = length (EventIDs dp)
       \<and> (\<forall>i<length (EventIDs dp). \<exists>r. rs ! i = Some r \<and> Index r = i))
   \<and> (\<forall>rs err. BatchUpdateEvents UpdateEvent up schedule = Return rs err \<longrightarrow>
       length rs = length (Updates up)
       \<and> (\<exists>order. distinct order \<and> set order = {..<length (Updates up)}
             \<and> (\<forall>k<length rs. \<exists>r. rs ! k = Some r \<and> Index r = order ! k)))"
proof -
  have c: "\<forall>rs err. BatchCreateEvents CreateEvent cp schedule = Return rs err \<longrightarrow>
       length rs = length (Events cp)
       \<and> (\<forall>i<length (Events cp). \<exists>r. rs ! i = Some r \<and> Index r = i)"
    using create_by_index[of CreateEvent cp schedule] by blast
  have d: "\<forall>rs err. BatchDeleteEvents DeleteEvent dp schedule = Return rs err \<longrightarrow>
       length rs = length (EventIDs dp)
       \<and> (\<forall>i<length (EventIDs dp). \<exists>r. rs ! i = Some r \<and> Index r = i)"
    using delete_by_index[of DeleteEvent dp schedule] by blast
  have u: "\<forall>rs err. BatchUpdateEvents UpdateEvent up schedule = Return rs err \<longrightarrow>
       length rs = length (Updates up)
       \<and> (\<exists>order. distinct order \<and> set order = {..<length (Updates up)}
             \<and> (\<forall>k<length rs. \<exists>r. rs ! k = Some r \<and> Index r = order ! k))"
    using update_by_order[of UpdateEvent up schedule] by blast
  show ?thesis by (rule conjI[OF c conjI[OF d u]])
qed

theorem batch_results_by_index_witness:
  "is_Return (BatchCreateEvents example_CreateEvent example_create_params shuffled_schedule)
   \<and> map (map_option Index)
        (returned_value
           (BatchCreateEvents example_CreateEvent example_create_params shuffled_schedule))
      = [Some 0, Some 1, Some 2, Some 3, Some 4]
   \<and> is_Return (BatchDeleteEvents example_DeleteEvent example_delete_params second_first_schedule)
   \<and> map (map_option Index)
        (returned_value
           (BatchDeleteEvents example_DeleteEvent example_delete_params second_first_schedule))
      = [Some 0, Some 1]
   \<and> is_Return (BatchUpdateEvents example_UpdateEvent example_update_params second_first_schedule)
   \<and> length (returned_value
               (BatchUpdateEvents example_UpdateEvent example_update_params
                  second_first_schedule)) = 2"
proof -
  have c: "is_Return (BatchCreateEvents example_CreateEvent example_create_params shuffled_schedule)"
    by code_simp
  then obtain rs err where
    ce: "BatchCreateEvents example_CreateEvent example_create_params shuffled_schedule
          = Return rs err"
    by (rule is_ReturnE)
  have d: "is_Return (BatchDeleteEvents example_DeleteEvent example_delete_params
                        second_first_schedule)"
    by code_simp
  then obtain ds derr where
    de: "BatchDeleteEvents example_DeleteEvent example_delete_params second_first_schedule
          = Return ds derr"
    by (rule is_ReturnE)
  have u: "is_Return (BatchUpdateEvents example_UpdateEvent example_update_params
                        second_first_schedule)"
    by code_simp
  then obtain us uerr where
    ue: "BatchUpdateEvents example_UpdateEvent example_update_params second_first_schedule
          = Return us uerr"
    by (rule is_ReturnE)
  note tc = batch_results_by_index
            [where CreateEvent = example_CreateEvent and cp = example_create_params
               and schedule = shuffled_schedule,
             THEN conjunct1, rule_format, of rs err]
  note td = batch_results_by_index
            [where DeleteEvent = example_DeleteEvent and dp = example_delete_params
               and schedule = second_first_schedule,
             THEN conjunct2, THEN conjunct1, rule_format, of ds derr]
  note tu = batch_results_by_index
            [where UpdateEvent = example_UpdateEvent and up = example_update_params
               and schedule = second_first_schedule,
             THEN conjunct2, THEN conjunct2, rule_format, of us uerr]
  have n5: "length (Events example_create_params) = 5"
    by (simp add: example_create_params_def)
  have n2: "length (EventIDs example_delete_params) = 2"
    by (simp add: example_delete_params_def)
  have l5: "map Some [0..<5] = [Some 0, Some 1, Some 2, Some 3, Some (4::nat)]" by code_simp
  have l2: "map Some [0..<2] = [Some 0, Some (1::nat)]" by code_simp
  have "length rs = 5 \<and> (\<forall>i<5. \<exists>r. rs ! i = Some r \<and> Index r = i)"
    using tc[OF ce] unfolding n5 by blast
  then have "map (map_option Index) rs = map Some [0..<5]"
    by (rule indexes_in_position)
  then have 1: "map (map_option Index) rs = [Some 0, Some 1, Some 2, Some 3, Some 4]"
    unfolding l5 .
  have "length ds = 2 \<and> (\<forall>i<2. \<exists>r. ds ! i = Some r \<and> Index r = i)"
    using td[OF de] unfolding n2 by blast
  then have "map (map_option Index) ds = map Some [0..<2]"
    by (rule indexes_in_position)
  then have 2: "map (map_option Index) ds = [Some 0, Some 1]"
    unfolding l2 .
  have 3: "length us = 2"
    using tu[OF ue] by (simp add: example_update_params_def)
  have c': "map (map_option Index)
        (returned_value
           (BatchCreateEvents example_CreateEvent example_create_params shuffled_schedule))
      = [Some 0, Some 1, Some 2, Some 3, Some 4]"
    by (simp only: ce batch_outcome.sel 1)
  have d': "map (map_option Index)
        (returned_value
           (BatchDeleteEvents example_DeleteEvent example_delete_params second_first_schedule))
      = [Some 0, Some 1]"
    by (simp only: de batch_outcome.sel 2)
  have u': "length (returned_value
               (BatchUpdateEvents example_UpdateEvent example_update_params
                  second_first_schedule)) = 2"
    by (simp only: ue batch_outcome.sel 3)
  show ?thesis by (intro conjI c c' d d' u u')
qed

text \<open>
  Two updates, the second completing first: position 0 holds the result with \<open>Index = 1\<close>.
\<close>

theorem batch_update_order_counterexample:
  "is_Return (BatchUpdateEvents example_UpdateEvent example_update_params second_first_schedule)
   \<and> map (map_option Index)
        (returned_value
           (BatchUpdateEvents example_UpdateEvent example_update_params second_first_schedule))
      = [Some 1, Some 0]"
  by code_simp

subsection \<open>Partial failure\<close>

text \<open>
  Claim C3. A bulk operation (create, update, delete) never panics; whatever its
  goroutines have done so far, they can run on until the call returns; and whenever it
  returns over a non-empty input it returns one entry per item, marked as a success
  (with the event, for create and update) or as a failure (with an error), together
  with an error of its own exactly when \<open>ContinueOnError\<close> is false and some item
  failed.  \<open>ListEventsMultiCalendar\<close> has no such option: its goroutines too can always
  run on until the call returns, but if the listing of any calendar failed the call
  returns no result at all and the \<open>API_ERROR\<close>; only when every listing succeeded does
  it return a result, and no error.
\<close>

theorem partial_failure_outcomes:
  "(\<not> is_Panic (BatchCreateEvents CreateEvent cp schedule)
    \<and> (\<exists>rest. is_Return (BatchCreateEvents CreateEvent cp (schedule @ rest)))
    \<and> (\<forall>rs err. Events cp \<noteq> [] \<and> BatchCreateEvents CreateEvent cp schedule = Return rs err \<longrightarrow>
          length rs = length (Events cp)
          \<and> (\<forall>i<length (Events cp).
                \<exists>r. rs ! i = Some r \<and> Index r = i \<and> entry_of (CreateEvent i (Events cp ! i)) r)
          \<and> err = (if \<not> ContinueOnError cp
                       \<and> (\<exists>i<length (Events cp). isl (returned (CreateEvent i (Events cp ! i))))
                    then Some TheErrAPIError else None)))
   \<and> (\<not> is_Panic (BatchUpdateEvents UpdateEvent up schedule)
    \<and> (\<exists>rest. is_Return (BatchUpdateEvents UpdateEvent up (schedule @ rest)))
    \<and> (\<forall>rs err. Updates up \<noteq> [] \<and> BatchUpdateEvents UpdateEvent up schedule = Return rs err \<longrightarrow>
          length rs = length (Updates up)
          \<and> (\<exists>order. distinct order \<and> set order = {..<length (Updates up)}
               \<and> (\<forall>k<length rs.
                     \<exists>r. rs ! k = Some r \<and> Index r = order ! k
                          \<and> EventID r = fst (Updates up ! (order ! k))
                          \<and> entry_of (UpdateEvent (fst (Updates up ! (order ! k)))
                                                   (snd (Updates up ! (order ! k)))) r))
          \<and> err = (if \<not> ContinueOnError up
                       \<and> (\<exists>i<length (Updates up).
                             isl (returned (UpdateEvent (fst (Updates up ! i))
                                                        (snd (Updates up ! i)))))
                    then Some TheErrAPIError else None)))
   \<and> (\<not> is_Panic (BatchDeleteEvents DeleteEvent dp schedule)
    \<and> (\<exists>rest. is_Return (BatchDeleteEvents DeleteEvent dp (schedule @ rest)))
    \<and> (\<forall>rs err. EventIDs dp \<noteq> [] \<and> BatchDeleteEvents DeleteEvent dp schedule = Return rs err \<longrightarrow>
          length rs = length (EventIDs dp)
          \<and> (\<forall>i<length (EventIDs dp).
                \<exists>r. rs ! i = Some r \<and> Index r = i \<and> EventID r = EventIDs dp ! i
                     \<and> deleted_entry_of (DeleteEvent (EventIDs dp ! i)) r)
          \<and> err = (if \<not> ContinueOnError dp
                       \<and> (\<exists>i<length (EventIDs dp).
                             returned (DeleteEvent (EventIDs dp ! i)) \<noteq> None)
                    then Some TheErrAPIError else None)))
   \<and> ((\<exists>rest. is_Return (ListEventsMultiCalendar c calendarIDs timeMin timeMax maxResults
                            (schedule @ rest)))
    \<and> (\<forall>svc r err.
         Service c = Some svc \<and> calendarIDs \<noteq> []
         \<and> ListEventsMultiCalendar c calendarIDs timeMin timeMax maxResults schedule = Return r err
         \<longrightarrow> (if \<exists>i<length calendarIDs.
                     isl (list_call svc calendarIDs timeMin timeMax maxResults i)
               then r = None \<and> err = Some TheErrAPIError
               else r \<noteq> None \<and> err = None)))"
proof -
  have c: "\<not> is_Panic (BatchCreateEvents CreateEvent cp schedule)
    \<and> (\<exists>rest. is_Return (BatchCreateEvents CreateEvent cp (schedule @ rest)))
    \<and> (\<forall>rs err. Events cp \<noteq> [] \<and> BatchCreateEvents CreateEvent cp schedule = Return rs err \<longrightarrow>
          length rs = length (Events cp)
          \<and> (\<forall>i<length (Events cp).
                \<exists>r. rs ! i = Some r \<and> Index r = i \<and> entry_of (CreateEvent i (Events cp ! i)) r)
          \<and> err = (if \<not> ContinueOnError cp
                       \<and> (\<exists>i<length (Events cp). isl (returned (CreateEvent i (Events cp ! i))))
                    then Some TheErrAPIError else None))"
    using create_never_panics[of CreateEvent cp schedule]
      create_can_complete[of CreateEvent cp schedule]
      create_entries[of cp CreateEvent schedule]
    by blast
  have u: "\<not> is_Panic (BatchUpdateEvents UpdateEvent up schedule)
    \<and> (\<exists>rest. is_Return (BatchUpdateEvents UpdateEvent up (schedule @ rest)))
    \<and> (\<forall>rs err. Updates up \<noteq> [] \<and> BatchUpdateEvents UpdateEvent up schedule = Return rs err \<longrightarrow>
          length rs = length (Updates up)
          \<and> (\<exists>order. distinct order \<and> set order = {..<length (Updates up)}
               \<and> (\<forall>k<length rs.
                     \<exists>r. rs ! k = Some r \<and> Index r = order ! k
                          \<and> EventID r = fst (Updates up ! (order ! k))
                          \<and> entry_of (UpdateEvent (fst (Updates up ! (order ! k)))
                                                   (snd (Updates up ! (order ! k)))) r))
          \<and> err = (if \<not> ContinueOnError up
                       \<and> (\<exists>i<length (Updates up).
                             isl (returned (UpdateEvent (fst (Updates up ! i))
                                                        (snd (Updates up ! i)))))
                    then Some TheErrAPIError else None))"
    using update_never_panics[of UpdateEvent up schedule]
      update_can_complete[of UpdateEvent up schedule]
      update_entries[of up UpdateEvent schedule]
    by blast
  have d: "\<not> is_Panic (BatchDeleteEvents DeleteEvent dp schedule)
    \<and> (\<exists>rest. is_Return (BatchDeleteEvents DeleteEvent dp (schedule @ rest)))
    \<and> (\<forall>rs err. EventIDs dp \<noteq> [] \<and> BatchDeleteEvents DeleteEvent dp schedule = Return rs err \<longrightarrow>
          length rs = length (EventIDs dp)
          \<and> (\<forall>i<length (EventIDs dp).
                \<exists>r. rs ! i = Some r \<and> Index r = i \<and> EventID r = EventIDs dp ! i
                     \<and> deleted_entry_of (DeleteEvent (EventIDs dp ! i)) r)
          \<and> err = (if \<not> ContinueOnError dp
                       \<and> (\<exists>i<length (EventIDs dp).
                             returned (DeleteEvent (EventIDs dp ! i)) \<noteq> None)
                    then Some TheErrAPIError else None))"
    using delete_never_panics[of DeleteEvent dp schedule]
      delete_can_complete[of DeleteEvent dp schedule]
      delete_entries[of dp DeleteEvent schedule]
    by blast
  have l: "(\<exists>rest. is_Return (ListEventsMultiCalendar c calendarIDs timeMin timeMax maxResults
                            (schedule @ rest)))
    \<and> (\<forall>svc r err.
         Service c = Some svc \<and> calendarIDs \<noteq> []
         \<and> ListEventsMultiCalendar c calendarIDs timeMin timeMax maxResults schedule = Return r err
         \<longrightarrow> (if \<exists>i<length calendarIDs.
                     isl (list_call svc calendarIDs timeMin timeMax maxResults i)
               then r = None \<and> err = Some TheErrAPIError
               else r \<noteq> None \<and> err = None))"
    using list_can_complete[of c calendarIDs timeMin timeMax maxResults schedule]
      list_outcome[of c _ calendarIDs timeMin timeMax maxResults schedule]
    by blast
  show ?thesis by (rule conjI[OF c conjI[OF u conjI[OF d l]]])
qed

text \<open>
  The theorem on the examples: five events of which the one at index 3 is refused,
  created with \<open>ContinueOnError\<close>, give four successes, one failure and no error; two
  calendars that can both be listed give a result.
\<close>

theorem partial_failure_outcomes_witness:
  "is_Return (BatchCreateEvents example_CreateEvent example_create_params shuffled_schedule)
   \<and> map (map_option Success)
        (returned_value
           (BatchCreateEvents example_CreateEvent example_create_params shuffled_schedule))
      = [Some True, Some True, Some True, Some False, Some True]
   \<and> returned_error
        (BatchCreateEvents example_CreateEvent example_create_params shuffled_schedule) = None
   \<and> GetBatchSummary
        (returned_value
           (BatchCreateEvents example_CreateEvent example_create_params shuffled_schedule))
      = Some (5, 4, 1)
   \<and> is_Return (ListEventsMultiCalendar (example_client []) [''a'', ''b'']
                   (clock_2024_01_15 9 0) (clock_2024_01_15 10 0) 0 [1, 0, 0, 1])
   \<and> returned_value (ListEventsMultiCalendar (example_client []) [''a'', ''b'']
                   (clock_2024_01_15 9 0) (clock_2024_01_15 10 0) 0 [1, 0, 0, 1]) \<noteq> None
   \<and> returned_error (ListEventsMultiCalendar (example_client []) [''a'', ''b'']
                   (clock_2024_01_15 9 0) (clock_2024_01_15 10 0) 0 [1, 0, 0, 1]) = None"
proof -
  let ?X = "BatchCreateEvents example_CreateEvent example_create_params shuffled_schedule"
  have x: "is_Return ?X" by code_simp
  then obtain rs err where e: "?X = Return rs err" by (rule is_ReturnE)
  have ne: "Events example_create_params \<noteq> []" by (simp add: example_create_params_def)
  have n5: "length (Events example_create_params) = 5"
    by (simp add: example_create_params_def)
  have co: "ContinueOnError example_create_params" by (simp add: example_create_params_def)
  note C = partial_failure_outcomes
            [where CreateEvent = example_CreateEvent and cp = example_create_params
               and schedule = shuffled_schedule,
             THEN conjunct1, THEN conjunct2, THEN conjunct2, rule_format, of rs err]
  have all: "length rs = length (Events example_create_params)
          \<and> (\<forall>i<length (Events example_create_params).
                \<exists>r. rs ! i = Some r \<and> Index r = i
                     \<and> entry_of (example_CreateEvent i (Events example_create_params ! i)) r)
          \<and> err = (if \<not> ContinueOnError example_create_params
                       \<and> (\<exists>i<length (Events example_create_params).
                             isl (returned (example_CreateEvent i
                                              (Events example_create_params ! i))))
                    then Some TheErrAPIError else None)"
    by (rule C) (simp add: ne e)
  then have err: "err = None" using co by simp
  from all have "length rs = length (Events example_create_params)
          \<and> (\<forall>i<length (Events example_create_params).
                \<exists>r. rs ! i = Some r \<and> Index r = i
                     \<and> entry_of (example_CreateEvent i (Events example_create_params ! i)) r)"
    by blast
  then have "map (map_option Success) rs
      = map (\<lambda>i. Some (\<not> isl (returned (example_CreateEvent i
                                           (Events example_create_params ! i)))))
          [0..<length (Events example_create_params)]"
    by (rule successes_in_position)
  moreover have "map (\<lambda>i. Some (\<not> isl (returned (example_CreateEvent i
                                           (Events example_create_params ! i)))))
          [0..<length (Events example_create_params)]
        = [Some True, Some True, Some True, Some False, Some True]"
    by code_simp
  ultimately have s: "map (map_option Success) rs
      = [Some True, Some True, Some True, Some False, Some True]"
    by (rule trans)
  have x2: "map (map_option Success) (returned_value ?X)
      = [Some True, Some True, Some True, Some False, Some True]"
    by (simp only: e batch_outcome.sel s)
  have x3: "returned_error ?X = None" by (simp only: e batch_outcome.sel err)
  have x4: "GetBatchSummary (returned_value ?X) = Some (5, 4, 1)" by code_simp
  let ?L = "ListEventsMultiCalendar (example_client []) [''a'', ''b'']
                   (clock_2024_01_15 9 0) (clock_2024_01_15 10 0) 0 [1, 0, 0, 1]"
  have lr: "is_Return ?L" by code_simp
  then obtain r lerr where le: "?L = Return r lerr" by (rule is_ReturnE)
  have svc: "Service (example_client []) = Some (example_service [])"
    by (simp add: example_client_def NewClient_def)
  have ok: "\<not> (\<exists>i<length [''a'', ''b''].
               isl (list_call (example_service []) [''a'', ''b''] (clock_2024_01_15 9 0)
                      (clock_2024_01_15 10 0) 0 i))"
    by (simp add: list_call_def example_service_def)
  note L = partial_failure_outcomes
            [where c = "example_client []" and calendarIDs = "[''a'', ''b'']"
               and timeMin = "clock_2024_01_15 9 0" and timeMax = "clock_2024_01_15 10 0"
               and maxResults = 0 and schedule = "[1, 0, 0, 1]",
             THEN conjunct2, THEN conjunct2, THEN conjunct2, THEN conjunct2, rule_format,
             of "example_service []" r lerr]
  have "if \<exists>i<length [''a'', ''b''].
               isl (list_call (example_service []) [''a'', ''b''] (clock_2024_01_15 9 0)
                      (clock_2024_01_15 10 0) 0 i)
        then r = None \<and> lerr = Some TheErrAPIError
        else r \<noteq> None \<and> lerr = None"
    by (rule L) (intro conjI, rule svc, simp, rule le)
  then have rl: "r \<noteq> None \<and> lerr = None"
    using ok by simp
  have l2: "returned_value ?L \<noteq> None" unfolding le using rl by simp
  have l3: "returned_error ?L = None" unfolding le using rl by simp
  show ?thesis by (intro conjI x x2 x3 x4 lr l2 l3)
qed

text \<open>
  Two calendars, the listing of the second one answered with 404: the events of the
  first calendar are not returned, and the call never had an option to return them.
\<close>

theorem ListEventsMultiCalendar_total_failure_counterexample:
  "is_Return (ListEventsMultiCalendar (NewClient (Some failing_list_service) ''primary'')
                [''a'', ''b''] (clock_2024_01_15 9 0) (clock_2024_01_15 10 0) 0 [0, 1, 0, 1])
   \<and> Option.is_none
        (returned_value
           (ListEventsMultiCalendar (NewClient (Some failing_list_service) ''primary'')
              [''a'', ''b''] (clock_2024_01_15 9 0) (clock_2024_01_15 10 0) 0 [0, 1, 0, 1]))
   \<and> returned_error
        (ListEventsMultiCalendar (NewClient (Some failing_list_service) ''primary'')
           [''a'', ''b''] (clock_2024_01_15 9 0) (clock_2024_01_15 10 0) 0 [0, 1, 0, 1])
      = Some TheErrAPIError
   \<and> written
        (ListEventsMultiCalendar_call (NewClient (Some failing_list_service) ''primary'')
           [''a'', ''b''] (clock_2024_01_15 9 0) (clock_2024_01_15 10 0) 0 [0, 1, 0, 1])
      = [SetDetails
           ''multi-calendar query failed: calendar b: googleapi: Error 404: Not Found'']"
  by code_simp


section \<open>Properties of the natural-language date parser\<close>

lemma split_at_tomorrow_2pm: "split_at ''tomorrow at 2pm'' = (''tomorrow'', ''2pm'')"
  by code_simp

lemma TrimSpace_tomorrow: "TrimSpace ''tomorrow'' = ''tomorrow''"
  by code_simp

lemma parseTimeOfDay_2pm: "parseTimeOfDay ''2pm'' tz = Inr (time_Date 0 1 1 14 0 0 0 UTC)"
proof -
  have "TrimSpace (ToLower ''2pm'') = ''2pm''" by code_simp
  moreover have "first_some (\<lambda>format. time_Parse format ''2pm'')
                   [layout_3pm, layout_3_04pm, layout_15_04, layout_15_04_05]
                 = Some (time_Date 0 1 1 14 0 0 0 UTC)"
    by code_simp
  ultimately show ?thesis by (simp add: parseTimeOfDay_def)
qed

lemma two_pm: "time_Hour (time_Date 0 1 1 14 0 0 0 UTC) = 14 \<and> time_Minute (time_Date 0 1 1 14 0 0 0 UTC) = 0"
  by code_simp

lemma parseRelativeDate_tomorrow_2pm:
  "parseRelativeDate ''tomorrow at 2pm'' now tz =
     Inr (Format_RFC3339
            (time_Date
               (time_Year (time_Date (time_Year now) (time_Month now) (time_Day now + 1) 0 0 0 0 tz))
               (time_Month (time_Date (time_Year now) (time_Month now) (time_Day now + 1) 0 0 0 0 tz))
               (time_Day (time_Date (time_Year now) (time_Month now) (time_Day now + 1) 0 0 0 0 tz))
               14 0 0 0 tz))"
  by (simp add: parseRelativeDate_def split_at_tomorrow_2pm TrimSpace_tomorrow apply_time_def
        parseTimeOfDay_2pm two_pm)

text \<open>
  Claim C9. With \<open>now\<close> = 10:00 on Monday 2024-01-15 in America/New\_York,
  \<open>parseRelativeDate\<close> of \<open>tomorrow at 2pm\<close> succeeds with
  \<open>2024-01-16T14:00:00-05:00\<close>, and so does \<open>ParseNaturalLanguageDate\<close> in a process
  whose clock shows that instant. For every \<open>now\<close> and zone the result is the time
  that \<open>time.Date\<close> gives for 14:00, in the zone, on the date shown by the time that
  \<open>time.Date\<close> gives for 00:00 on the day numbered one more than the day \<open>now\<close> shows.
\<close>

theorem tomorrow_at_2pm_scenario:
  "time_Weekday monday_10_00 = 1
   \<and> Format_RFC3339 monday_10_00 = ''2024-01-15T10:00:00-05:00''
   \<and> parseRelativeDate ''tomorrow at 2pm'' monday_10_00 America_New_York
       = Inr ''2024-01-16T14:00:00-05:00''
   \<and> ParseNaturalLanguageDate process_at_10_00 ''tomorrow at 2pm'' (Some America_New_York)
       = Inr ''2024-01-16T14:00:00-05:00''
   \<and> parseRelativeDate ''tomorrow at 2pm'' now tz =
       Inr (Format_RFC3339
              (time_Date
                 (time_Year (time_Date (time_Year now) (time_Month now) (time_Day now + 1) 0 0 0 0 tz))
                 (time_Month (time_Date (time_Year now) (time_Month now) (time_Day now + 1) 0 0 0 0 tz))
                 (time_Day (time_Date (time_Year now) (time_Month now) (time_Day now + 1) 0 0 0 0 tz))
                 14 0 0 0 tz))"
proof -
  have a: "time_Weekday monday_10_00 = 1" by code_simp
  have b: "Format_RFC3339 monday_10_00 = ''2024-01-15T10:00:00-05:00''" by code_simp
  have c: "parseRelativeDate ''tomorrow at 2pm'' monday_10_00 America_New_York
             = Inr ''2024-01-16T14:00:00-05:00''"
    by code_simp
  have d: "ParseNaturalLanguageDate process_at_10_00 ''tomorrow at 2pm'' (Some America_New_York)
             = Inr ''2024-01-16T14:00:00-05:00''"
    by code_simp
  show ?thesis by (intro conjI a b c d parseRelativeDate_tomorrow_2pm)
qed

lemma now_text:
  "ToLower ''now'' = ''now'' \<and> split_at ''now'' = (''now'', []) \<and> TrimSpace ''now'' = ''now''"
  by code_simp

lemma ParseNaturalLanguageDate_now:
  "ParseNaturalLanguageDate w ''now'' (Some tz) = Inr (Format_RFC3339 \<lparr>unixNano = clock w, loc = tz\<rparr>)"
  by (simp add: ParseNaturalLanguageDate_def now_text parseRelativeDate_def time_Now_def
        time_In_def)

lemma ParseNaturalLanguageDate_clock:
  assumes "clock w1 = clock w2"
  shows "ParseNaturalLanguageDate w1 input (Some tz) = ParseNaturalLanguageDate w2 input (Some tz)"
  using assms by (simp add: ParseNaturalLanguageDate_def time_Now_def time_In_def)

lemma ParseNaturalLanguageDate_clock_Local:
  assumes "clock w1 = clock w2" "Local w1 = Local w2"
  shows "ParseNaturalLanguageDate w1 input None = ParseNaturalLanguageDate w2 input None"
  using assms by (simp add: ParseNaturalLanguageDate_def time_Now_def time_In_def)

text \<open>
  Claim C5. \<open>ParseNaturalLanguageDate\<close> takes the text and the time zone; the current time
  it reads from the system clock. Its result is determined by the text, the zone and that
  reading, and by \<open>time.Local\<close> when the zone is \<open>nil\<close>; for the text \<open>now\<close> it is the
  reading itself, shown in the zone.
\<close>

theorem ParseNaturalLanguageDate_ambient:
  "(clock w1 = clock w2 \<longrightarrow>
      ParseNaturalLanguageDate w1 input (Some tz) = ParseNaturalLanguageDate w2 input (Some tz))
   \<and> (clock w1 = clock w2 \<and> Local w1 = Local w2 \<longrightarrow>
      ParseNaturalLanguageDate w1 input None = ParseNaturalLanguageDate w2 input None)
   \<and> ParseNaturalLanguageDate w1 ''now'' (Some tz)
       = Inr (Format_RFC3339 \<lparr>unixNano = clock w1, loc = tz\<rparr>)"
  using ParseNaturalLanguageDate_clock[of w1 w2 input tz]
    ParseNaturalLanguageDate_clock_Local[of w1 w2 input]
    ParseNaturalLanguageDate_now[of w1 tz]
  by blast

theorem ParseNaturalLanguageDate_ambient_witness:
  "ParseNaturalLanguageDate \<lparr>clock = unixNano monday_10_00, Local = America_New_York\<rparr>
       ''tomorrow at 2pm'' (Some America_New_York)
     = ParseNaturalLanguageDate process_at_10_00 ''tomorrow at 2pm'' (Some America_New_York)
   \<and> ParseNaturalLanguageDate \<lparr>clock = unixNano monday_10_00, Local = UTC\<rparr> ''today'' None
     = ParseNaturalLanguageDate process_at_10_00 ''today'' None
   \<and> ParseNaturalLanguageDate process_at_10_00 ''now'' (Some America_New_York)
     = Inr (Format_RFC3339 \<lparr>unixNano = clock process_at_10_00, loc = America_New_York\<rparr>)"
proof -
  note t = ParseNaturalLanguageDate_ambient
             [where ?w1.0 = "\<lparr>clock = unixNano monday_10_00, Local = America_New_York\<rparr>"
                and ?w2.0 = process_at_10_00 and input = "''tomorrow at 2pm''"
                and tz = America_New_York]
  note u = ParseNaturalLanguageDate_ambient
             [where ?w1.0 = "\<lparr>clock = unixNano monday_10_00, Local = UTC\<rparr>"
                and ?w2.0 = process_at_10_00 and input = "''today''"]
  note v = ParseNaturalLanguageDate_ambient
             [where ?w1.0 = process_at_10_00 and tz = America_New_York]
  have a: "ParseNaturalLanguageDate \<lparr>clock = unixNano monday_10_00, Local = America_New_York\<rparr>
       ''tomorrow at 2pm'' (Some America_New_York)
     = ParseNaturalLanguageDate process_at_10_00 ''tomorrow at 2pm'' (Some America_New_York)"
    by (rule t[THEN conjunct1, rule_format]) (simp add: process_at_10_00_def)
  have b: "ParseNaturalLanguageDate \<lparr>clock = unixNano monday_10_00, Local = UTC\<rparr> ''today'' None
     = ParseNaturalLanguageDate process_at_10_00 ''today'' None"
    by (rule u[THEN conjunct2, THEN conjunct1, rule_format]) (simp add: process_at_10_00_def)
  have c: "ParseNaturalLanguageDate process_at_10_00 ''now'' (Some America_New_York)
     = Inr (Format_RFC3339 \<lparr>unixNano = clock process_at_10_00, loc = America_New_York\<rparr>)"
    by (rule v[THEN conjunct2, THEN conjunct2])
  show ?thesis by (intro conjI a b c)
qed

text \<open>
  The same text and the same zone, parsed by two processes whose clocks differ by an hour.
\<close>

theorem ParseNaturalLanguageDate_clock_counterexample:
  "ParseNaturalLanguageDate process_at_10_00 ''now'' (Some America_New_York)
     = Inr ''2024-01-15T10:00:00-05:00''
   \<and> ParseNaturalLanguageDate process_at_11_00 ''now'' (Some America_New_York)
     = Inr ''2024-01-15T11:00:00-05:00''"
  by code_simp

end
